theory Spec2Isabelle
  imports Main "HOL-Library.Word"
begin

section \<open>Bytes, characters and number formatting\<close>

text \<open>
  \<^verbatim>\<open>EmbedStaticAssets.py\<close> reads files as Python 3 \<^verbatim>\<open>bytes\<close>; iterating over
  them yields integers between 0 and 255. The text it writes is ASCII, one \<^typ>\<open>char\<close>
  per character.
\<close>

type_synonym byte = "8 word"

abbreviation dquote :: char where "dquote \<equiv> CHR 0x22"
abbreviation bslash :: char where "bslash \<equiv> CHR 0x5C"
abbreviation newline :: char where "newline \<equiv> CHR 0x0A"

text \<open>Python's \<^verbatim>\<open>chr(i)\<close> for \<open>i < 256\<close>.\<close>

definition chr :: "nat \<Rightarrow> char" where
  "chr i = char_of i"

text \<open>Python's \<^verbatim>\<open>ord(c)\<close>.\<close>

definition ord :: "char \<Rightarrow> nat" where
  "ord c = of_char c"

text \<open>The digits of \<open>n\<close> in base \<open>b\<close>, most significant first.\<close>

fun digits_of :: "nat \<Rightarrow> nat \<Rightarrow> nat list" where
  "digits_of b n = (if b < 2 \<or> n < b then [n] else digits_of b (n div b) @ [n mod b])"

declare digits_of.simps [simp del]

definition digit_char :: "nat \<Rightarrow> char" where
  "digit_char d = chr (48 + d)"

text \<open>
  A number printed in base \<open>b\<close> and padded with zeros on the left to at least \<open>w\<close>
  characters: \<^verbatim>\<open>%d\<close> is \<open>format_nat 10 0\<close>, \<^verbatim>\<open>%06d\<close> is \<open>format_nat 10 6\<close>
  and \<^verbatim>\<open>{0:03o}\<close> is \<open>format_nat 8 3\<close>.
\<close>

definition format_nat :: "nat \<Rightarrow> nat \<Rightarrow> nat \<Rightarrow> string" where
  "format_nat b w n =
     (let s = map digit_char (digits_of b n) in replicate (w - length s) (CHR ''0'') @ s)"

section \<open>The literal encoder\<close>

text \<open>
  One iteration of the loop of \<^verbatim>\<open>EncodeFileAsCString\<close> writes the text of one byte:
  \<^verbatim>\<open>
        if i < 32 or i >= 127 or i == ord('?'):
            f.write('\\{0:03o}'.format(i))
        elif i in [ ord('"'), ord('\\') ]:
            f.write('\\' + chr(i))
        else:
            f.write(chr(i))
  \<close>
\<close>

definition encode_byte :: "byte \<Rightarrow> string" where
  "encode_byte c =
     (let i = unat c in
      if i < 32 \<or> i \<ge> 127 \<or> i = ord (CHR ''?'') then bslash # format_nat 8 3 i
      else if i \<in> set [ord dquote, ord bslash] then bslash # [chr i]
      else [chr i])"

text \<open>The text written when the column counter reaches 120: \<^verbatim>\<open>'"\n  "'\<close>.\<close>

definition wrap_text :: string where
  "wrap_text = [dquote, newline] @ ''  '' @ [dquote]"

text \<open>
  The text written by the whole loop, started with the counter at \<open>column\<close>:
  \<^verbatim>\<open>
        column += 1
        if column >= 120:
            f.write('"\n  "')
            column = 0
  \<close>
\<close>

fun encode_text :: "nat \<Rightarrow> byte list \<Rightarrow> string" where
  "encode_text column [] = []"
| "encode_text column (c # cs) =
     encode_byte c @
     (if column + 1 \<ge> 120 then wrap_text @ encode_text 0 cs
      else encode_text (column + 1) cs)"

section \<open>String literals of the generated C++\<close>

text \<open>
  The generated module is C++ source. What a string literal written into it denotes is
  fixed by the lexical rules of C++ for ordinary string literals: a backslash starts a
  simple escape, an octal escape of one to three digits or a hexadecimal escape of any
  number of digits; a literal ends at the first unescaped double quote; adjacent
  literals separated by white space are concatenated. The rules are modelled as an
  automaton that reads the text one character at a time. Universal character names,
  line splices and trigraphs are not modelled: a text that needs them is rejected.
\<close>

datatype lex_state =
    Start
  | Outside
  | Inside
  | Escape
  | Octal1 nat
  | Octal2 nat
  | Hex0
  | Hex nat

definition is_octal :: "char \<Rightarrow> bool" where
  "is_octal c = (48 \<le> ord c \<and> ord c < 56)"

definition octal_val :: "char \<Rightarrow> nat" where
  "octal_val c = ord c - 48"

definition hex_val :: "char \<Rightarrow> nat option" where
  "hex_val c =
     (let n = ord c in
      if 48 \<le> n \<and> n < 58 then Some (n - 48)
      else if 65 \<le> n \<and> n < 71 then Some (n - 55)
      else if 97 \<le> n \<and> n < 103 then Some (n - 87)
      else None)"

definition simple_escape :: "char \<Rightarrow> char option" where
  "simple_escape c =
     (if c = dquote then Some dquote
      else if c = bslash then Some bslash
      else if c = CHR 0x27 then Some (CHR 0x27)
      else if c = CHR ''?'' then Some (CHR ''?'')
      else if c = CHR ''a'' then Some (CHR 0x07)
      else if c = CHR ''b'' then Some (CHR 0x08)
      else if c = CHR ''f'' then Some (CHR 0x0C)
      else if c = CHR ''n'' then Some (CHR 0x0A)
      else if c = CHR ''r'' then Some (CHR 0x0D)
      else if c = CHR ''t'' then Some (CHR 0x09)
      else if c = CHR ''v'' then Some (CHR 0x0B)
      else None)"

text \<open>A character read inside a literal, outside of any escape sequence.\<close>

definition inside_step :: "char \<Rightarrow> (string \<times> lex_state) option" where
  "inside_step c =
     (if c = dquote then Some ([], Outside)
      else if c = bslash then Some ([], Escape)
      else if c = newline then None
      else Some ([c], Inside))"

text \<open>
  One step: the characters the step adds to the literal's value, and the next state.
  An escape sequence of variable length ends at the first character that cannot
  continue it; that character is then read as any character inside the literal.
\<close>

fun lex_step :: "lex_state \<Rightarrow> char \<Rightarrow> (string \<times> lex_state) option" where
  "lex_step Start c =
     (if c = dquote then Some ([], Inside) else None)"
| "lex_step Outside c =
     (if c = dquote then Some ([], Inside)
      else if c = CHR '' '' \<or> c = newline \<or> c = CHR 0x09 then Some ([], Outside)
      else None)"
| "lex_step Inside c = inside_step c"
| "lex_step Escape c =
     (if is_octal c then Some ([], Octal1 (octal_val c))
      else if c = CHR ''x'' then Some ([], Hex0)
      else (case simple_escape c of None \<Rightarrow> None | Some e \<Rightarrow> Some ([e], Inside)))"
| "lex_step (Octal1 v) c =
     (if is_octal c then Some ([], Octal2 (8 * v + octal_val c))
      else (case inside_step c of None \<Rightarrow> None | Some (out, st) \<Rightarrow> Some (chr v # out, st)))"
| "lex_step (Octal2 v) c =
     (if is_octal c then
        (if 8 * v + octal_val c < 256 then Some ([chr (8 * v + octal_val c)], Inside) else None)
      else (case inside_step c of None \<Rightarrow> None | Some (out, st) \<Rightarrow> Some (chr v # out, st)))"
| "lex_step Hex0 c =
     (case hex_val c of None \<Rightarrow> None | Some d \<Rightarrow> Some ([], Hex d))"
| "lex_step (Hex v) c =
     (case hex_val c of
        Some d \<Rightarrow> (if 16 * v + d < 256 then Some ([], Hex (16 * v + d)) else None)
      | None \<Rightarrow> (case inside_step c of None \<Rightarrow> None | Some (out, st) \<Rightarrow> Some (chr v # out, st)))"

fun lex_run :: "lex_state \<Rightarrow> string \<Rightarrow> (string \<times> lex_state) option" where
  "lex_run st [] = Some ([], st)"
| "lex_run st (c # s) =
     (case lex_step st c of
        None \<Rightarrow> None
      | Some (out, st') \<Rightarrow>
          (case lex_run st' s of
             None \<Rightarrow> None
           | Some (out', st'') \<Rightarrow> Some (out @ out', st'')))"

text \<open>
  The value of an initialiser made of one or more adjacent string literals: the text
  has to start with a double quote and to end just after a closing one.
\<close>

definition cxx_literal :: "string \<Rightarrow> string option" where
  "cxx_literal s =
     (case lex_run Start s of
        Some (out, Outside) \<Rightarrow> Some out
      | _ \<Rightarrow> None)"

text \<open>A \<^verbatim>\<open>char\<close> of the literal stored in a \<^verbatim>\<open>uint8_t\<close>, and back.\<close>

definition byte_of_char :: "char \<Rightarrow> byte" where
  "byte_of_char c = word_of_nat (ord c)"

definition char_of_byte :: "byte \<Rightarrow> char" where
  "char_of_byte w = chr (unat w)"

text \<open>
  The rule of the specification for one byte, as its section 4.1 words it: the
  character itself when it is printable and neither a quote, a backslash nor a question
  mark, and a three-digit octal escape in every other case.
\<close>

definition encode_byte_spec :: "byte \<Rightarrow> string" where
  "encode_byte_spec c =
     (let i = unat c in
      if 32 \<le> i \<and> i < 127 \<and> i \<noteq> ord dquote \<and> i \<noteq> ord bslash \<and> i \<noteq> ord (CHR ''?'')
      then [chr i]
      else bslash # format_nat 8 3 i)"

section \<open>The script: files, errors and the external library\<close>

text \<open>
  A Python file object is identified with the path it was opened on. The store maps a
  path to the state of its file: whether it is still open, and the text written so far.
\<close>

record pyfile =
  is_open :: bool
  written :: string

type_synonym disk = "string \<rightharpoonup> pyfile"

datatype py_error =
    Usage string
  | NonexistentSource string
  | OpenFailed string
  | ReadFailed string
  | UnboundGlobal
  | ClosedFile
  | NotAFile

text \<open>
  A statement of the script takes the store and returns either the exception it raised
  or its value, and the store it leaves.
\<close>

type_synonym 'a io = "disk \<Rightarrow> (py_error + 'a) \<times> disk"

definition io_return :: "'a \<Rightarrow> 'a io" where
  "io_return x d = (Inr x, d)"

definition io_raise :: "py_error \<Rightarrow> 'a io" where
  "io_raise e d = (Inl e, d)"

definition io_bind :: "'a io \<Rightarrow> ('a \<Rightarrow> 'b io) \<Rightarrow> 'b io" where
  "io_bind m k d = (case m d of (Inl e, d') \<Rightarrow> (Inl e, d') | (Inr x, d') \<Rightarrow> k x d')"

definition io_then :: "unit io \<Rightarrow> 'b io \<Rightarrow> 'b io" where
  "io_then m k = io_bind m (\<lambda>_. k)"

text \<open>\<^verbatim>\<open>f.write(txt)\<close>: writing to a closed file raises \<^verbatim>\<open>ValueError\<close>.\<close>

definition fwrite :: "string \<Rightarrow> string \<Rightarrow> unit io" where
  "fwrite f txt d =
     (case d f of
        None \<Rightarrow> (Inl NotAFile, d)
      | Some p \<Rightarrow>
          if is_open p then (Inr (), d(f \<mapsto> p\<lparr>written := written p @ txt\<rparr>))
          else (Inl ClosedFile, d))"

text \<open>
  What the script takes from outside: \<^verbatim>\<open>gzip.compress\<close>, \<^verbatim>\<open>hashlib.md5(...).hexdigest()\<close>,
  \<^verbatim>\<open>os.path.isdir\<close>, whether \<^verbatim>\<open>open(TARGET, 'w')\<close> returns a file or raises, and the
  traversal of the source folder, which yields every file's path relative to the folder,
  in the order of \<^verbatim>\<open>os.walk\<close>, with the bytes read from the file, or \<open>None\<close> when opening
  or reading it raises.
\<close>

record python_env =
  gzip_compress :: "byte list \<Rightarrow> byte list"
  md5_hexdigest :: "byte list \<Rightarrow> string"
  isdir :: "string \<Rightarrow> bool"
  can_open :: "string \<Rightarrow> bool"
  walk_files :: "string \<Rightarrow> (string \<times> byte list option) list"

section \<open>EncodeFileAsCString and WriteChecksum\<close>

fun encode_loop :: "string \<Rightarrow> nat \<Rightarrow> byte list \<Rightarrow> unit io" where
  "encode_loop f column [] = io_return ()"
| "encode_loop f column (c # cs) =
     io_then (fwrite f (encode_byte c))
       (if column + 1 \<ge> 120 then io_then (fwrite f wrap_text) (encode_loop f 0 cs)
        else encode_loop f (column + 1) cs)"

definition array_header :: "string \<Rightarrow> nat \<Rightarrow> string" where
  "array_header variable n =
     ''static const uint8_t '' @ variable @ ''['' @ format_nat 10 0 n @ ''] = '' @ [newline]
     @ ''  '' @ [dquote]"

definition array_footer :: string where
  "array_footer = [dquote] @ '';'' @ [newline, newline]"

definition EncodeFileAsCString :: "string \<Rightarrow> string \<Rightarrow> byte list \<Rightarrow> unit io" where
  "EncodeFileAsCString f variable content =
     io_then (fwrite f (array_header variable (length content + 1)))
    (io_then (encode_loop f 0 content)
             (fwrite f array_footer))"

definition checksum_text :: "string \<Rightarrow> string \<Rightarrow> string" where
  "checksum_text variable md5 =
     ''static const char* '' @ variable @ '' = '' @ [dquote] @ md5 @ [dquote] @ '';''
     @ [newline, newline]"

text \<open>
  \<^verbatim>\<open>
  def WriteChecksum(f, variable, content):
      md5 = hashlib.md5(content).hexdigest()
      g.write('static const char* %s = "%s";\n\n' % (variable, md5))
  \<close>
  The name \<^verbatim>\<open>g\<close> in the body is the module-level one: \<open>None\<close> when it is not bound.
\<close>

definition WriteChecksum ::
  "python_env \<Rightarrow> string option \<Rightarrow> string \<Rightarrow> string \<Rightarrow> byte list \<Rightarrow> unit io" where
  "WriteChecksum env g f variable content =
     (let md5 = md5_hexdigest env content in
      case g of
        None \<Rightarrow> io_raise UnboundGlobal
      | Some gf \<Rightarrow> fwrite gf (checksum_text variable md5))"

section \<open>The main program\<close>

definition preamble :: string where
  "preamble = concat (map (\<lambda>l. l @ [newline])
     ['''',
      ''#include <stdint.h>'',
      ''#include <Compression/GzipCompressor.h>'',
      ''#include <OrthancException.h>'',
      ''#include <Toolbox.h>'',
      '''',
      ''static void Uncompress(std::string& target, const void* data, size_t size, const std::string& md5Expected)'',
      ''{'',
      ''  Orthanc::GzipCompressor compressor;'',
      ''  compressor.Uncompress(target, data, size);'',
      ''  std::string md5Actual;'',
      ''  Orthanc::Toolbox::ComputeMD5(md5Actual, target);'',
      ''  if (md5Actual != md5Expected)'',
      ''  {'',
      ''    throw Orthanc::OrthancException(Orthanc::ErrorCode_CorruptedFile);'',
      ''  }'',
      ''}'',
      ''''])"

text \<open>\<^verbatim>\<open>index[relativePath] = variable\<close> on a dictionary that keeps insertion order.\<close>

fun dict_set :: "'k \<Rightarrow> 'v \<Rightarrow> ('k \<times> 'v) list \<Rightarrow> ('k \<times> 'v) list" where
  "dict_set k v [] = [(k, v)]"
| "dict_set k v ((k', v') # kvs) =
     (if k' = k then (k, v) # kvs else (k', v') # dict_set k v kvs)"

definition variable_name :: "nat \<Rightarrow> string" where
  "variable_name count = ''data_'' @ format_nat 10 6 count"

text \<open>
  The loop over the files of the source folder. The file object \<^verbatim>\<open>g\<close> is both passed
  to the two functions and bound at module level. A file that cannot be read ends the
  loop with the exception, before anything is written for it.
\<close>

fun walk_loop ::
  "python_env \<Rightarrow> string \<Rightarrow> (string \<times> byte list option) list \<Rightarrow> (string \<times> string) list
     \<Rightarrow> nat \<Rightarrow> ((string \<times> string) list \<times> nat) io" where
  "walk_loop env g [] index count = io_return (index, count)"
| "walk_loop env g ((relativePath, None) # rest) index count = io_raise (ReadFailed relativePath)"
| "walk_loop env g ((relativePath, Some content) # rest) index count =
     (let variable = variable_name count;
          compressed = gzip_compress env content in
      io_then (EncodeFileAsCString g variable compressed)
     (io_then (WriteChecksum env (Some g) g (variable @ ''_md5'') content)
              (walk_loop env g rest (dict_set relativePath variable index) (count + 1))))"

definition branch_if :: "string \<Rightarrow> string" where
  "branch_if path = ''  if (path == '' @ [dquote] @ path @ [dquote] @ '')'' @ [newline]"

definition branch_call :: "string \<Rightarrow> string" where
  "branch_call variable =
     ''    Uncompress(target, '' @ variable @ '', sizeof('' @ variable @ '') - 1, '' @ variable
     @ ''_md5);'' @ [newline]"

fun dispatch_loop :: "string \<Rightarrow> (string \<times> string) list \<Rightarrow> unit io" where
  "dispatch_loop g [] = io_return ()"
| "dispatch_loop g ((path, variable) # rest) =
     io_then (fwrite g (branch_if path))
    (io_then (fwrite g (''  {'' @ [newline]))
    (io_then (fwrite g (branch_call variable))
    (io_then (fwrite g (''    return;'' @ [newline]))
    (io_then (fwrite g (''  }'' @ [newline, newline]))
             (dispatch_loop g rest)))))"

definition dispatch_header :: string where
  "dispatch_header =
     ''void ReadStaticAsset(std::string& target, const std::string& path)'' @ [newline]
     @ ''{'' @ [newline]"

definition dispatch_footer :: string where
  "dispatch_footer =
     ''  throw Orthanc::OrthancException(Orthanc::ErrorCode_InexistentItem, '' @ [dquote]
     @ ''Unknown OHIF resource: '' @ [dquote] @ '' + path);'' @ [newline]
     @ ''}'' @ [newline]"

text \<open>The body of \<^verbatim>\<open>with open(TARGET, 'w') as g\<close>.\<close>

definition with_body :: "python_env \<Rightarrow> string \<Rightarrow> string \<Rightarrow> unit io" where
  "with_body env SOURCE g =
     io_then (fwrite g preamble)
    (io_bind (walk_loop env g (walk_files env SOURCE) [] 0) (\<lambda>(index, count).
     io_then (fwrite g dispatch_header)
    (io_then (dispatch_loop g index)
             (fwrite g dispatch_footer))))"

text \<open>
  \<^verbatim>\<open>open(path, 'w')\<close>: either the file is created empty (or truncated) and open, or
  the call raises and the store is as before.
\<close>

definition fopen_w :: "python_env \<Rightarrow> string \<Rightarrow> unit io" where
  "fopen_w env path d =
     (if can_open env path then (Inr (), d(path \<mapsto> \<lparr>is_open = True, written = []\<rparr>))
      else (Inl (OpenFailed path), d))"

definition fclose :: "string \<Rightarrow> disk \<Rightarrow> disk" where
  "fclose path d = (case d path of None \<Rightarrow> d | Some p \<Rightarrow> d(path \<mapsto> p\<lparr>is_open := False\<rparr>))"

text \<open>
  The script, run as \<^verbatim>\<open>prog args\<close>, so that \<^verbatim>\<open>sys.argv\<close> is \<open>prog # args\<close>:
  the two checks come first, then the target is opened, written and closed. When the
  target cannot be opened the exception leaves the script; an exception raised inside
  the \<^verbatim>\<open>with\<close> statement leaves it once the target has been closed.
\<close>

definition main :: "python_env \<Rightarrow> string \<Rightarrow> string list \<Rightarrow> unit io" where
  "main env prog args d =
     (if length (prog # args) \<noteq> 3 then (Inl (Usage prog), d)
      else
        let SOURCE = args ! 0; TARGET = args ! 1 in
        if \<not> isdir env SOURCE then (Inl (NonexistentSource SOURCE), d)
        else
          (case fopen_w env TARGET d of
             (Inl e, d0) \<Rightarrow> (Inl e, d0)
           | (Inr u, d0) \<Rightarrow>
               let (r, d') = with_body env SOURCE TARGET d0
               in (r, fclose TARGET d')))"

text \<open>
  The module-level name \<^verbatim>\<open>g\<close> once the script has run: it is bound, to the file of the
  target, by the \<^verbatim>\<open>with\<close> statement alone, which is reached after the two checks and
  binds the name when \<^verbatim>\<open>open\<close> has returned.
\<close>

definition global_g :: "python_env \<Rightarrow> string \<Rightarrow> string list \<Rightarrow> string option" where
  "global_g env prog args =
     (if length (prog # args) \<noteq> 3 then None
      else
        let SOURCE = args ! 0; TARGET = args ! 1 in
        if \<not> isdir env SOURCE then None
        else if can_open env TARGET then Some TARGET
        else None)"

section \<open>The generated module\<close>

text \<open>
  The text the script writes is a C++ translation unit of a fixed shape: the preamble
  with \<^verbatim>\<open>Uncompress\<close>, two declarations per asset, and \<^verbatim>\<open>ReadStaticAsset\<close> with one
  conditional per entry of the index. Its abstract syntax keeps every string literal as
  the text that stands in the file.
\<close>

datatype cxx_decl =
    ArrayDecl string nat string
  | StringDecl string string

record cxx_branch =
  br_path :: string
  br_data :: string
  br_sizeof :: string
  br_md5 :: string

record cxx_unit =
  unit_decls :: "cxx_decl list"
  unit_branches :: "cxx_branch list"

text \<open>The concrete syntax, character by character what the script writes.\<close>

fun render_decl :: "cxx_decl \<Rightarrow> string" where
  "render_decl (ArrayDecl variable n init) =
     ''static const uint8_t '' @ variable @ ''['' @ format_nat 10 0 n @ ''] = '' @ [newline]
     @ ''  '' @ init @ '';'' @ [newline, newline]"
| "render_decl (StringDecl variable body) =
     ''static const char* '' @ variable @ '' = '' @ [dquote] @ body @ [dquote] @ '';''
     @ [newline, newline]"

definition render_branch :: "cxx_branch \<Rightarrow> string" where
  "render_branch b =
     ''  if (path == '' @ [dquote] @ br_path b @ [dquote] @ '')'' @ [newline]
     @ ''  {'' @ [newline]
     @ ''    Uncompress(target, '' @ br_data b @ '', sizeof('' @ br_sizeof b @ '') - 1, ''
     @ br_md5 b @ '');'' @ [newline]
     @ ''    return;'' @ [newline]
     @ ''  }'' @ [newline, newline]"

definition render_unit :: "cxx_unit \<Rightarrow> string" where
  "render_unit u =
     preamble @ concat (map render_decl (unit_decls u))
     @ dispatch_header @ concat (map render_branch (unit_branches u)) @ dispatch_footer"

text \<open>The unit the script generates from the files of the source folder.\<close>

definition asset_decls :: "python_env \<Rightarrow> nat \<Rightarrow> byte list \<Rightarrow> cxx_decl list" where
  "asset_decls env count content =
     (let variable = variable_name count;
          compressed = gzip_compress env content in
      [ArrayDecl variable (length compressed + 1) ([dquote] @ encode_text 0 compressed @ [dquote]),
       StringDecl (variable @ ''_md5'') (md5_hexdigest env content)])"

fun generate_decls :: "python_env \<Rightarrow> (string \<times> byte list) list \<Rightarrow> nat \<Rightarrow> cxx_decl list" where
  "generate_decls env [] count = []"
| "generate_decls env ((relativePath, content) # rest) count =
     asset_decls env count content @ generate_decls env rest (count + 1)"

fun generate_index ::
  "(string \<times> byte list) list \<Rightarrow> (string \<times> string) list \<Rightarrow> nat \<Rightarrow> (string \<times> string) list" where
  "generate_index [] index count = index"
| "generate_index ((relativePath, content) # rest) index count =
     generate_index rest (dict_set relativePath (variable_name count) index) (count + 1)"

definition index_branch :: "string \<times> string \<Rightarrow> cxx_branch" where
  "index_branch pv =
     \<lparr>br_path = fst pv, br_data = snd pv, br_sizeof = snd pv, br_md5 = snd pv @ ''_md5''\<rparr>"

definition generate_unit :: "python_env \<Rightarrow> (string \<times> byte list) list \<Rightarrow> cxx_unit" where
  "generate_unit env files =
     \<lparr>unit_decls = generate_decls env files 0,
      unit_branches = map index_branch (generate_index files [] 0)\<rparr>"

section \<open>What the generated module computes\<close>

datatype ErrorCode =
    ErrorCode_CorruptedFile
  | ErrorCode_InexistentItem
  | ErrorCode_Other nat

text \<open>
  The two functions of the Orthanc framework that \<^verbatim>\<open>Uncompress\<close> calls:
  \<^verbatim>\<open>GzipCompressor::Uncompress\<close>, which may throw, and \<^verbatim>\<open>Toolbox::ComputeMD5\<close>.
\<close>

record orthanc =
  gunzip :: "byte list \<Rightarrow> ErrorCode + byte list"
  ComputeMD5 :: "byte list \<Rightarrow> string"

text \<open>
  \<^verbatim>\<open>
  static void Uncompress(std::string& target, const void* data, size_t size, const std::string& md5Expected)
  {
    Orthanc::GzipCompressor compressor;
    compressor.Uncompress(target, data, size);
    std::string md5Actual;
    Orthanc::Toolbox::ComputeMD5(md5Actual, target);
    if (md5Actual != md5Expected)
    {
      throw Orthanc::OrthancException(Orthanc::ErrorCode_CorruptedFile);
    }
  }
  \<close>
\<close>

definition Uncompress :: "orthanc \<Rightarrow> byte list \<Rightarrow> nat \<Rightarrow> string \<Rightarrow> ErrorCode + byte list" where
  "Uncompress rt data sz md5Expected =
     (case gunzip rt (take sz data) of
        Inl e \<Rightarrow> Inl e
      | Inr target \<Rightarrow>
          (let md5Actual = ComputeMD5 rt target in
           if md5Actual \<noteq> md5Expected then Inl ErrorCode_CorruptedFile else Inr target))"

text \<open>
  The object a declaration defines. An array of \<open>n\<close> bytes initialised from a string
  literal holds the characters of the literal and is filled up with zeros; the literal
  with its terminating zero must fit. \<^verbatim>\<open>sizeof\<close> of the array is \<open>n\<close>.
\<close>

datatype cxx_object =
    ByteArray "byte list"
  | CharPointer string

fun decl_name :: "cxx_decl \<Rightarrow> string" where
  "decl_name (ArrayDecl variable n init) = variable"
| "decl_name (StringDecl variable body) = variable"

fun decl_object :: "cxx_decl \<Rightarrow> cxx_object option" where
  "decl_object (ArrayDecl variable n init) =
     (case cxx_literal init of
        None \<Rightarrow> None
      | Some cs \<Rightarrow>
          if length cs + 1 \<le> n
          then Some (ByteArray (map byte_of_char cs @ replicate (n - length cs) 0))
          else None)"
| "decl_object (StringDecl variable body) =
     (case cxx_literal ([dquote] @ body @ [dquote]) of
        None \<Rightarrow> None
      | Some cs \<Rightarrow> Some (CharPointer cs))"

text \<open>The declarations of a unit: none may be ill-formed, no name may be declared twice.\<close>

fun cxx_declare :: "cxx_decl list \<Rightarrow> (string \<times> cxx_object) list option" where
  "cxx_declare [] = Some []"
| "cxx_declare (d # ds) =
     (case decl_object d of
        None \<Rightarrow> None
      | Some ob \<Rightarrow>
          (case cxx_declare ds of
             None \<Rightarrow> None
           | Some objs \<Rightarrow>
               if decl_name d \<in> set (map fst objs) then None
               else Some ((decl_name d, ob) # objs)))"

text \<open>
  A \<^verbatim>\<open>const char*\<close> converted to \<^verbatim>\<open>std::string\<close>, or compared with one, is read up to
  its first zero.
\<close>

definition c_str :: "string \<Rightarrow> string" where
  "c_str cs = takeWhile (\<lambda>c. c \<noteq> CHR 0x00) cs"

text \<open>
  One conditional of \<^verbatim>\<open>ReadStaticAsset\<close> with its names resolved: the path it compares
  with, and the three arguments it passes to \<^verbatim>\<open>Uncompress\<close>.
\<close>

record cxx_case =
  case_path :: string
  case_data :: "byte list"
  case_size :: nat
  case_md5 :: string

definition compile_branch :: "(string \<times> cxx_object) list \<Rightarrow> cxx_branch \<Rightarrow> cxx_case option" where
  "compile_branch objs b =
     (case cxx_literal ([dquote] @ br_path b @ [dquote]) of
        None \<Rightarrow> None
      | Some p \<Rightarrow>
          (case (map_of objs (br_data b), map_of objs (br_sizeof b), map_of objs (br_md5 b)) of
             (Some (ByteArray data), Some (ByteArray arr), Some (CharPointer md5)) \<Rightarrow>
               Some \<lparr>case_path = c_str p, case_data = data, case_size = length arr - 1,
                     case_md5 = c_str md5\<rparr>
           | _ \<Rightarrow> None))"

fun compile_branches :: "(string \<times> cxx_object) list \<Rightarrow> cxx_branch list \<Rightarrow> cxx_case list option" where
  "compile_branches objs [] = Some []"
| "compile_branches objs (b # bs) =
     (case compile_branch objs b of
        None \<Rightarrow> None
      | Some c \<Rightarrow>
          (case compile_branches objs bs of
             None \<Rightarrow> None
           | Some cs \<Rightarrow> Some (c # cs)))"

definition cxx_compile :: "cxx_unit \<Rightarrow> cxx_case list option" where
  "cxx_compile u =
     (case cxx_declare (unit_decls u) of
        None \<Rightarrow> None
      | Some objs \<Rightarrow> compile_branches objs (unit_branches u))"

text \<open>
  The chain of conditionals: the first path that equals the request decides, and the
  \<^verbatim>\<open>throw\<close> after the chain is reached when none does.
\<close>

fun dispatch :: "orthanc \<Rightarrow> cxx_case list \<Rightarrow> string \<Rightarrow> ErrorCode + byte list" where
  "dispatch rt [] path = Inl ErrorCode_InexistentItem"
| "dispatch rt (c # cs) path =
     (if path = case_path c then Uncompress rt (case_data c) (case_size c) (case_md5 c)
      else dispatch rt cs path)"

text \<open>
  \<^verbatim>\<open>ReadStaticAsset\<close> of a unit: \<open>None\<close> when the unit is not well-formed C++, and
  otherwise the exception thrown or the bytes stored in \<^verbatim>\<open>target\<close>.
\<close>

definition ReadStaticAsset :: "orthanc \<Rightarrow> cxx_unit \<Rightarrow> string \<Rightarrow> (ErrorCode + byte list) option" where
  "ReadStaticAsset rt u path =
     (case cxx_compile u of
        None \<Rightarrow> None
      | Some cases \<Rightarrow> Some (dispatch rt cases path))"

section \<open>A stand-in for the external libraries\<close>

text \<open>
  To run the model on concrete inputs, the compressor is replaced by one that stores the
  bytes behind the two magic bytes of gzip, and the digest by the decimal sum of the
  bytes. The folder \<^verbatim>\<open>www\<close> holds the two files of the scenario of the specification,
  both readable; a target in the folder \<^verbatim>\<open>nodir\<close> cannot be opened.
\<close>

definition stub_digest :: "byte list \<Rightarrow> string" where
  "stub_digest x = format_nat 10 8 (sum_list (map unat x))"

definition stub_tree :: "(string \<times> byte list) list" where
  "stub_tree = [(''a.txt'', [104, 101, 108, 108, 111]), (''sub/b.bin'', [0, 63, 34, 92])]"

text \<open>A traversal in which every file was read.\<close>

definition all_read :: "(string \<times> byte list) list \<Rightarrow> (string \<times> byte list option) list" where
  "all_read files = map (\<lambda>pc. (fst pc, Some (snd pc))) files"

definition stub_env :: python_env where
  "stub_env =
     \<lparr>gzip_compress = (\<lambda>x. 31 # 139 # x),
      md5_hexdigest = stub_digest,
      isdir = (\<lambda>p. p = ''www''),
      can_open = (\<lambda>p. take 6 p \<noteq> ''nodir/''),
      walk_files = (\<lambda>p. if p = ''www'' then all_read stub_tree else [])\<rparr>"

definition stub_rt :: orthanc where
  "stub_rt =
     \<lparr>gunzip = (\<lambda>x. if take 2 x = [31, 139] then Inr (drop 2 x) else Inl (ErrorCode_Other 0)),
      ComputeMD5 = stub_digest\<rparr>"

section \<open>Notions used to state the properties\<close>

text \<open>A file that can be written to, and the store after a text was appended to a file.\<close>

definition writable :: "disk \<Rightarrow> string \<Rightarrow> bool" where
  "writable d f = (case d f of None \<Rightarrow> False | Some p \<Rightarrow> is_open p)"

definition fappend :: "string \<Rightarrow> string \<Rightarrow> disk \<Rightarrow> disk" where
  "fappend f txt d =
     (case d f of None \<Rightarrow> d | Some p \<Rightarrow> d(f \<mapsto> p\<lparr>written := written p @ txt\<rparr>))"

text \<open>A path that is a file of the store, open or closed.\<close>

definition has_file :: "disk \<Rightarrow> string \<Rightarrow> bool" where
  "has_file d h = (d h \<noteq> None)"

text \<open>The encoding of a blob with no wrapping at all.\<close>

definition encode_unwrapped :: "byte list \<Rightarrow> string" where
  "encode_unwrapped content = concat (map encode_byte content)"

text \<open>
  A text that stands for itself between double quotes: no double quote, no backslash,
  no line break and no zero character.
\<close>

definition plain_char :: "char \<Rightarrow> bool" where
  "plain_char c = (c \<noteq> dquote \<and> c \<noteq> bslash \<and> c \<noteq> newline \<and> c \<noteq> CHR 0x00)"

definition plain_text :: "string \<Rightarrow> bool" where
  "plain_text s = list_all plain_char s"

text \<open>The number a decimal text denotes.\<close>

definition parse_nat :: "string \<Rightarrow> nat" where
  "parse_nat s = foldl (\<lambda>a c. 10 * a + (ord c - 48)) 0 s"

text \<open>
  What the unit generated from a list of files is expected to define when every path
  and every digest is a plain text and no path occurs twice: the two objects of every
  asset, the entries of the index, and the resolved conditionals.
\<close>

fun expected_objs ::
  "python_env \<Rightarrow> (string \<times> byte list) list \<Rightarrow> nat \<Rightarrow> (string \<times> cxx_object) list" where
  "expected_objs env [] count = []"
| "expected_objs env ((relativePath, content) # rest) count =
     (variable_name count, ByteArray (gzip_compress env content @ [0]))
     # (variable_name count @ ''_md5'', CharPointer (md5_hexdigest env content))
     # expected_objs env rest (count + 1)"

fun expected_index :: "(string \<times> byte list) list \<Rightarrow> nat \<Rightarrow> (string \<times> string) list" where
  "expected_index [] count = []"
| "expected_index ((relativePath, content) # rest) count =
     (relativePath, variable_name count) # expected_index rest (count + 1)"

fun expected_cases :: "python_env \<Rightarrow> (string \<times> byte list) list \<Rightarrow> cxx_case list" where
  "expected_cases env [] = []"
| "expected_cases env ((relativePath, content) # rest) =
     \<lparr>case_path = relativePath, case_data = gzip_compress env content @ [0],
      case_size = length (gzip_compress env content), case_md5 = md5_hexdigest env content\<rparr>
     # expected_cases env rest"

text \<open>The hypothesis on the files: paths are plain and distinct, digests are plain.\<close>

definition plain_files :: "python_env \<Rightarrow> (string \<times> byte list) list \<Rightarrow> bool" where
  "plain_files env files =
     (distinct (map fst files) \<and>
      list_all (\<lambda>pc. plain_text (fst pc) \<and> plain_text (md5_hexdigest env (snd pc))) files)"


section \<open>Properties of the literal encoder\<close>

subsection \<open>Characters and digits\<close>

lemma unat_byte_less: "unat (w::byte) < 256"
  using unsigned_less[of w] by simp

lemma ord_chr: "i < 256 \<Longrightarrow> ord (chr i) = i"
  by (simp add: ord_def chr_def)

lemma chr_ord: "chr (ord c) = c"
  by (simp add: ord_def chr_def)

lemma ord_less: "ord c < 256"
  by (simp add: ord_def)

lemma chr_eq_iff: "i < 256 \<Longrightarrow> (chr i = c) = (i = ord c)"
  using ord_chr chr_ord by auto

lemma byte_of_char_of_byte: "byte_of_char (char_of_byte w) = w"
  using unat_byte_less[of w] by (simp add: byte_of_char_def char_of_byte_def ord_chr)

lemma digits_of_small: "n < b \<Longrightarrow> digits_of b n = [n]"
  by (subst digits_of.simps) simp

lemma digits_of_step: "2 \<le> b \<Longrightarrow> b \<le> n \<Longrightarrow> digits_of b n = digits_of b (n div b) @ [n mod b]"
  by (subst digits_of.simps) simp

lemma digits_of_8_two:
  assumes "8 \<le> n" "n < 64"
  shows "digits_of 8 n = [n div 8, n mod 8]"
proof -
  have "n div 8 < 8" using assms by simp
  then have "digits_of 8 (n div 8) = [n div 8]" by (rule digits_of_small)
  moreover have "digits_of 8 n = digits_of 8 (n div 8) @ [n mod 8]"
    using assms by (intro digits_of_step) simp_all
  ultimately show ?thesis by simp
qed

lemma digits_of_8_three:
  assumes "64 \<le> n" "n < 512"
  shows "digits_of 8 n = [n div 64, n div 8 mod 8, n mod 8]"
proof -
  have "8 \<le> n div 8" "n div 8 < 64" using assms by simp_all
  then have "digits_of 8 (n div 8) = [n div 8 div 8, n div 8 mod 8]" by (rule digits_of_8_two)
  moreover have "n div 8 div 8 = n div 64" by (simp add: div_mult2_eq[symmetric])
  moreover have "digits_of 8 n = digits_of 8 (n div 8) @ [n mod 8]"
    using assms by (intro digits_of_step) simp_all
  ultimately show ?thesis by simp
qed

lemma digit_char_0: "digit_char 0 = CHR ''0''"
  by (simp add: digit_char_def chr_eq_iff ord_def)

lemma digits_of_8:
  assumes "i < 512"
  shows "format_nat 8 3 i = [digit_char (i div 64), digit_char (i div 8 mod 8), digit_char (i mod 8)]"
proof -
  consider "i < 8" | "8 \<le> i" "i < 64" | "64 \<le> i" by linarith
  then show ?thesis
  proof cases
    case 1
    have r: "replicate 2 (CHR ''0'') = ''00''" by (simp add: numeral_2_eq_2)
    from 1 show ?thesis by (simp add: format_nat_def digits_of_small digit_char_0 r)
  next
    case 2
    then have "i div 64 = 0" by simp
    then show ?thesis using 2 by (simp add: format_nat_def digits_of_8_two digit_char_0)
  next
    case 3
    then show ?thesis using assms by (simp add: format_nat_def digits_of_8_three)
  qed
qed

lemma ords: "ord dquote = 34" "ord bslash = 92" "ord newline = 10" "ord (CHR ''?'') = 63"
  "ord (CHR ''x'') = 120" "ord (CHR '' '') = 32"
  by (simp_all add: ord_def)

lemma ord_digit_char: "d < 8 \<Longrightarrow> ord (digit_char d) = 48 + d"
  by (simp add: digit_char_def ord_chr)

lemma is_octal_digit_char: "d < 8 \<Longrightarrow> is_octal (digit_char d)"
  by (simp add: is_octal_def ord_digit_char)

lemma octal_val_digit_char: "d < 8 \<Longrightarrow> octal_val (digit_char d) = d"
  by (simp add: octal_val_def ord_digit_char)

lemma octal_digits_less: "i < 256 \<Longrightarrow> i div 64 < 8 \<and> i div 8 mod 8 < 8 \<and> i mod 8 < (8::nat)"
  by simp

lemma octal_digits_value: "8 * (8 * (i div 64) + i div 8 mod 8) + i mod 8 = (i::nat)"
proof -
  have "i div 64 = i div 8 div 8" by (simp add: div_mult2_eq[symmetric])
  then show ?thesis by (simp add: algebra_simps)
qed

lemma lex_run_octal3:
  assumes "i < 256"
  shows "lex_run Inside (bslash # format_nat 8 3 i) = Some ([chr i], Inside)"
proof -
  have d: "i div 64 < 8" "i div 8 mod 8 < 8" "i mod 8 < 8" using octal_digits_less[OF assms] by simp_all
  have f: "format_nat 8 3 i = [digit_char (i div 64), digit_char (i div 8 mod 8), digit_char (i mod 8)]"
    using assms by (intro digits_of_8) simp
  have b: "\<not> is_octal bslash" "bslash \<noteq> dquote" by (simp_all add: is_octal_def ord_def)
  have val: "64 * (i div 64) + 8 * (i div 8 mod 8) + i mod 8 = i" using octal_digits_value[of i] by simp
  show ?thesis unfolding f using assms
    by (simp add: inside_step_def is_octal_digit_char[OF d(1)] is_octal_digit_char[OF d(2)]
        is_octal_digit_char[OF d(3)] octal_val_digit_char[OF d(1)] octal_val_digit_char[OF d(2)]
        octal_val_digit_char[OF d(3)] val)
qed

lemma lex_run_encode_byte: "lex_run Inside (encode_byte c) = Some ([char_of_byte c], Inside)"
proof -
  let ?i = "unat c"
  have lt: "?i < 256" by (rule unat_byte_less)
  consider (oct) "?i < 32 \<or> ?i \<ge> 127 \<or> ?i = 63" 
    | (quo) "?i = 34" | (bsl) "?i = 92"
    | (plain) "32 \<le> ?i" "?i < 127" "?i \<noteq> 63" "?i \<noteq> 34" "?i \<noteq> 92" by linarith
  then show ?thesis
  proof cases
    case oct
    then show ?thesis using lex_run_octal3[OF lt]
      by (simp add: encode_byte_def ords char_of_byte_def)
  next
    case quo
    have "chr 34 = dquote" by (simp add: chr_eq_iff ords)
    then show ?thesis using quo
      by (simp add: encode_byte_def ords char_of_byte_def inside_step_def is_octal_def simple_escape_def)
  next
    case bsl
    have "chr 92 = bslash" by (simp add: chr_eq_iff ords)
    then show ?thesis using bsl
      by (simp add: encode_byte_def ords char_of_byte_def inside_step_def is_octal_def simple_escape_def)
  next
    case plain
    then show ?thesis using lt
      by (simp add: encode_byte_def ords char_of_byte_def inside_step_def chr_eq_iff)
  qed
qed

lemma lex_run_append:
  "lex_run st (s @ t) =
     (case lex_run st s of None \<Rightarrow> None
      | Some (out, st') \<Rightarrow> (case lex_run st' t of None \<Rightarrow> None | Some (out', st'') \<Rightarrow> Some (out @ out', st'')))"
  by (induction s arbitrary: st) (auto split: option.splits)

lemma lex_run_wrap: "lex_run Inside wrap_text = Some ([], Inside)"
  by (simp add: wrap_text_def inside_step_def)

lemma lex_run_encode_text:
  "lex_run Inside (encode_text column cs) = Some (map char_of_byte cs, Inside)"
  by (induction column cs rule: encode_text.induct)
     (simp_all add: lex_run_append lex_run_encode_byte lex_run_wrap)

subsection \<open>One byte\<close>

lemma byte_eq_iff: "((c::byte) = d) = (unat c = unat d)"
  by (rule word_unat_eq_iff)

lemma unat_bytes: "unat (34::byte) = 34" "unat (92::byte) = 92" "unat (63::byte) = 63"
  by simp_all

text \<open>
  Claim C6, as amended. For every byte, \<^verbatim>\<open>EncodeFileAsCString\<close> writes the character
  itself when the byte is printable ASCII (32 to 126) and is neither a double quote, a
  backslash nor a question mark; it writes a backslash followed by the character itself
  for the double quote and for the backslash; and it writes a backslash followed by
  exactly three octal digits for every other byte, the question mark included.
\<close>

theorem encode_byte_cases:
  "encode_byte c =
     (if 32 \<le> unat c \<and> unat c < 127 \<and> c \<noteq> 34 \<and> c \<noteq> 92 \<and> c \<noteq> 63 then [chr (unat c)]
      else if c = 34 \<or> c = 92 then [bslash, chr (unat c)]
      else [bslash, digit_char (unat c div 64), digit_char (unat c div 8 mod 8),
            digit_char (unat c mod 8)])"
proof -
  define i where "i = unat c"
  have lt: "i < 512" using unat_byte_less[of c] by (simp add: i_def)
  have e: "(c = 34) = (i = 34)" "(c = 92) = (i = 92)" "(c = 63) = (i = 63)"
    by (simp_all add: byte_eq_iff[of c] i_def)
  have f: "format_nat 8 3 i = [digit_char (i div 64), digit_char (i div 8 mod 8), digit_char (i mod 8)]"
    using lt by (rule digits_of_8)
  consider (oct) "i < 32 \<or> i \<ge> 127 \<or> i = 63"
    | (esc) "i = 34 \<or> i = 92"
    | (plain) "32 \<le> i" "i < 127" "i \<noteq> 63" "i \<noteq> 34" "i \<noteq> 92" by linarith
  then have "encode_byte c =
     (if 32 \<le> i \<and> i < 127 \<and> i \<noteq> 34 \<and> i \<noteq> 92 \<and> i \<noteq> 63 then [chr i]
      else if i = 34 \<or> i = 92 then [bslash, chr i]
      else [bslash, digit_char (i div 64), digit_char (i div 8 mod 8), digit_char (i mod 8)])"
  proof cases
    case oct
    then have "encode_byte c = bslash # format_nat 8 3 i"
      by (simp add: encode_byte_def ords i_def[symmetric])
    moreover have "\<not> (32 \<le> i \<and> i < 127 \<and> i \<noteq> 34 \<and> i \<noteq> 92 \<and> i \<noteq> 63)" "\<not> (i = 34 \<or> i = 92)"
      using oct by linarith+
    ultimately show ?thesis using f by simp
  next
    case esc
    then show ?thesis by (auto simp add: encode_byte_def ords i_def[symmetric])
  next
    case plain
    then show ?thesis by (simp add: encode_byte_def ords i_def[symmetric])
  qed
  then show ?thesis unfolding e i_def .
qed

theorem encode_byte_cases_witness:
  "encode_byte 34 = [bslash, dquote] \<and> encode_byte 65 = ''A'' \<and>
   encode_byte 63 = [bslash, CHR ''0'', CHR ''7'', CHR ''7'']"
proof -
  have c: "chr 34 = dquote" "chr 65 = CHR ''A''" "digit_char 0 = CHR ''0''" "digit_char 7 = CHR ''7''"
    by (simp_all add: chr_eq_iff digit_char_def ord_def)
  show ?thesis
    using encode_byte_cases [of 34] encode_byte_cases [of 65] encode_byte_cases [of 63]
    by (simp add: c)
qed

text \<open>
  The rule as the specification words it sends the double quote to the octal escape
  \<^verbatim>\<open>\042\<close>; the script writes the two characters \<^verbatim>\<open>\"\<close>.
\<close>

theorem encode_byte_spec_counterexample:
  "encode_byte 34 = [bslash, dquote] \<and>
   encode_byte_spec 34 = [bslash, CHR ''0'', CHR ''4'', CHR ''2''] \<and>
   encode_byte 34 \<noteq> encode_byte_spec 34"
  by code_simp

text \<open>
  Claim C7. For every byte value, the text written for the byte, read back as the body
  of a C++ string literal, denotes the byte itself: quote, backslash, question mark and
  the bytes that are not printable included.
\<close>

theorem literal_roundtrip_byte:
  "map_option (map byte_of_char) (cxx_literal ([dquote] @ encode_byte c @ [dquote])) = Some [c]"
  by (simp add: cxx_literal_def lex_run_append lex_run_encode_byte inside_step_def
      byte_of_char_of_byte)

theorem literal_roundtrip_byte_witness:
  "map_option (map byte_of_char) (cxx_literal ([dquote] @ encode_byte 34 @ [dquote])) = Some [34] \<and>
   map_option (map byte_of_char) (cxx_literal ([dquote] @ encode_byte 92 @ [dquote])) = Some [92] \<and>
   map_option (map byte_of_char) (cxx_literal ([dquote] @ encode_byte 63 @ [dquote])) = Some [63] \<and>
   map_option (map byte_of_char) (cxx_literal ([dquote] @ encode_byte 0 @ [dquote])) = Some [0] \<and>
   map_option (map byte_of_char) (cxx_literal ([dquote] @ encode_byte 255 @ [dquote])) = Some [255]"
  using literal_roundtrip_byte [of 34] literal_roundtrip_byte [of 92] literal_roundtrip_byte [of 63]
    literal_roundtrip_byte [of 0] literal_roundtrip_byte [of 255]
  by simp

section \<open>The text the script writes\<close>

lemma fwrite_ok: "writable d f \<Longrightarrow> fwrite f txt d = (Inr (), fappend f txt d)"
  by (auto simp add: writable_def fwrite_def fappend_def split: option.splits)

lemma writable_fappend: "writable (fappend f txt d) h = writable d h"
  by (auto simp add: writable_def fappend_def split: option.splits)

lemma fappend_fappend: "fappend f t2 (fappend f t1 d) = fappend f (t1 @ t2) d"
  by (auto simp add: fappend_def split: option.splits)

lemma fappend_nil: "fappend f [] d = d"
  by (auto simp add: fappend_def split: option.splits)

lemma fappend_other: "h \<noteq> f \<Longrightarrow> fappend f txt d h = d h"
  by (auto simp add: fappend_def split: option.splits)

lemma io_then_ok: "m d = (Inr (), d') \<Longrightarrow> io_then m k d = k d'"
  by (simp add: io_then_def io_bind_def)

lemma io_bind_ok: "m d = (Inr x, d') \<Longrightarrow> io_bind m k d = k x d'"
  by (simp add: io_bind_def)

lemma io_then_fwrite: "writable d f \<Longrightarrow> io_then (fwrite f txt) k d = k (fappend f txt d)"
  by (simp add: io_then_ok fwrite_ok)

lemma encode_loop_ok:
  "writable d f \<Longrightarrow> encode_loop f column cs d = (Inr (), fappend f (encode_text column cs) d)"
proof (induction f column cs arbitrary: d rule: encode_loop.induct)
  case (1 f column)
  then show ?case by (simp add: io_return_def fappend_nil)
next
  case (2 f column c cs)
  then show ?case
    by (simp add: io_then_fwrite writable_fappend fappend_fappend)
qed

lemma EncodeFileAsCString_ok:
  "writable d f \<Longrightarrow>
   EncodeFileAsCString f variable content d =
     (Inr (), fappend f (array_header variable (length content + 1) @ encode_text 0 content
                         @ array_footer) d)"
  by (simp add: EncodeFileAsCString_def io_then_fwrite writable_fappend encode_loop_ok
      io_then_ok fwrite_ok fappend_fappend)

lemma WriteChecksum_ok:
  "writable d g \<Longrightarrow>
   WriteChecksum env (Some g) f variable content d =
     (Inr (), fappend g (checksum_text variable (md5_hexdigest env content)) d)"
  by (simp add: WriteChecksum_def fwrite_ok)

lemma render_asset_decls:
  "concat (map render_decl (asset_decls env count content)) =
     array_header (variable_name count) (length (gzip_compress env content) + 1)
     @ encode_text 0 (gzip_compress env content) @ array_footer
     @ checksum_text (variable_name count @ ''_md5'') (md5_hexdigest env content)"
  by (simp add: asset_decls_def Let_def array_header_def array_footer_def checksum_text_def)

lemma io_then_Encode:
  "writable d f \<Longrightarrow>
   io_then (EncodeFileAsCString f variable content) k d =
     k (fappend f (array_header variable (length content + 1) @ encode_text 0 content
                   @ array_footer) d)"
  by (rule io_then_ok) (rule EncodeFileAsCString_ok)

lemma io_then_Checksum:
  "writable d g \<Longrightarrow>
   io_then (WriteChecksum env (Some g) f variable content) k d =
     k (fappend g (checksum_text variable (md5_hexdigest env content)) d)"
  by (rule io_then_ok) (rule WriteChecksum_ok)

lemma walk_loop_ok:
  "writable d g \<Longrightarrow>
   walk_loop env g (all_read files) index count d =
     (Inr (generate_index files index count, count + length files),
      fappend g (concat (map render_decl (generate_decls env files count))) d)"
proof (induction files arbitrary: index count d)
  case Nil
  then show ?case by (simp add: all_read_def io_return_def fappend_nil)
next
  case (Cons entry rest)
  obtain relativePath content where entry: "entry = (relativePath, content)" by (cases entry)
  let ?d1 = "fappend g (array_header (variable_name count) (length (gzip_compress env content) + 1)
                 @ encode_text 0 (gzip_compress env content) @ array_footer) d"
  let ?d2 = "fappend g (checksum_text (variable_name count @ ''_md5'') (md5_hexdigest env content)) ?d1"
  have w1: "writable ?d1 g" using Cons.prems by (simp add: writable_fappend)
  have w2: "writable ?d2 g" using w1 by (simp add: writable_fappend)
  have "walk_loop env g (all_read (entry # rest)) index count d =
        walk_loop env g (all_read rest) (dict_set relativePath (variable_name count) index)
          (count + 1) ?d2"
    unfolding entry
    using Cons.prems w1 by (simp add: all_read_def Let_def io_then_Encode io_then_Checksum)
  also have "\<dots> = (Inr (generate_index rest (dict_set relativePath (variable_name count) index) (count + 1),
                      count + 1 + length rest),
                 fappend g (concat (map render_decl (generate_decls env rest (count + 1)))) ?d2)"
    by (rule Cons.IH[OF w2])
  finally show ?case
    unfolding entry by (simp add: fappend_fappend render_asset_decls del: append_assoc add: append_assoc[symmetric])
qed

lemma render_index_branch:
  "render_branch (index_branch (path, variable)) =
     branch_if path @ (''  {'' @ [newline]) @ branch_call variable @ (''    return;'' @ [newline])
     @ (''  }'' @ [newline, newline])"
  by (simp add: render_branch_def index_branch_def branch_if_def branch_call_def)

lemma dispatch_loop_ok:
  "writable d g \<Longrightarrow>
   dispatch_loop g index d =
     (Inr (), fappend g (concat (map render_branch (map index_branch index))) d)"
proof (induction index arbitrary: d)
  case Nil
  then show ?case by (simp add: io_return_def fappend_nil)
next
  case (Cons pv rest)
  obtain path variable where pv: "pv = (path, variable)" by (cases pv)
  show ?case unfolding pv using Cons.prems
    by (simp add: io_then_fwrite writable_fappend fappend_fappend Cons.IH render_index_branch)
qed

lemma writable_opened: "writable (d(path \<mapsto> \<lparr>is_open = True, written = []\<rparr>)) path"
  by (simp add: writable_def)

lemma fappend_opened:
  "fappend path txt (d(path \<mapsto> \<lparr>is_open = True, written = []\<rparr>))
     = d(path \<mapsto> \<lparr>is_open = True, written = txt\<rparr>)"
  by (simp add: fappend_def)

lemma with_body_ok:
  "writable d g \<Longrightarrow> walk_files env SOURCE = all_read files \<Longrightarrow>
   with_body env SOURCE g d = (Inr (), fappend g (render_unit (generate_unit env files)) d)"
  by (simp add: with_body_def io_then_fwrite writable_fappend io_bind_ok[OF walk_loop_ok]
      io_then_ok[OF dispatch_loop_ok] fwrite_ok fappend_fappend render_unit_def generate_unit_def)

lemma main_writes_unit:
  assumes "length args = 2" "isdir env (args ! 0)" "can_open env (args ! 1)"
    and "walk_files env (args ! 0) = all_read files"
  shows "main env prog args d =
     (Inr (), d(args ! 1 \<mapsto> \<lparr>is_open = False,
                            written = render_unit (generate_unit env files)\<rparr>))"
  using assms
  by (simp add: main_def Let_def fopen_w_def with_body_ok[OF writable_opened] fappend_opened
      fclose_def)

lemma main_open_fails:
  assumes "length args = 2" "isdir env (args ! 0)" "\<not> can_open env (args ! 1)"
  shows "main env prog args d = (Inl (OpenFailed (args ! 1)), d)"
  using assms by (simp add: main_def Let_def fopen_w_def)

section \<open>Failures of the script\<close>

text \<open>
  Claim C8. Run with a number of arguments other than two, the script raises its usage
  error; run with two arguments of which the first is not an existing directory, it
  raises its existence error. In both cases the store of files is the one it started
  from: the target has not been opened, and no byte of it has been written.
\<close>

theorem main_fails_before_output:
  "(length (prog # args) \<noteq> 3 \<longrightarrow> main env prog args d = (Inl (Usage prog), d)) \<and>
   (length (prog # args) = 3 \<and> \<not> isdir env (args ! 0) \<longrightarrow>
      main env prog args d = (Inl (NonexistentSource (args ! 0)), d))"
  by (simp add: main_def Let_def)

theorem main_fails_before_output_witness:
  "main stub_env ''EmbedStaticAssets.py'' [''www''] Map.empty
     = (Inl (Usage ''EmbedStaticAssets.py''), Map.empty) \<and>
   main stub_env ''EmbedStaticAssets.py'' [''nope'', ''out.cpp''] Map.empty
     = (Inl (NonexistentSource ''nope''), Map.empty)"
  using main_fails_before_output [of "''EmbedStaticAssets.py''" "[''www'']" stub_env Map.empty]
    main_fails_before_output [of "''EmbedStaticAssets.py''" "[''nope'', ''out.cpp'']" stub_env Map.empty]
  by (simp add: stub_env_def)

section \<open>The run-time check of the digest\<close>

text \<open>
  Claim C4. When the decompressor returns, \<^verbatim>\<open>Uncompress\<close> throws
  \<^verbatim>\<open>ErrorCode_CorruptedFile\<close> exactly when the digest computed over the decompressed
  bytes differs from the expected string, and yields the decompressed bytes when the
  two strings are equal. That error code is not the one of an unknown path, and a
  conditional of \<^verbatim>\<open>ReadStaticAsset\<close> whose path matches the request calls \<^verbatim>\<open>Uncompress\<close>
  with the data, size and digest of that conditional.
\<close>

theorem Uncompress_verifies_checksum:
  assumes "gunzip rt (take sz data) = Inr target"
  shows "(Uncompress rt data sz md5Expected = Inl ErrorCode_CorruptedFile
            \<longleftrightarrow> ComputeMD5 rt target \<noteq> md5Expected) \<and>
         (ComputeMD5 rt target = md5Expected \<longrightarrow> Uncompress rt data sz md5Expected = Inr target) \<and>
         ErrorCode_CorruptedFile \<noteq> ErrorCode_InexistentItem \<and>
         dispatch rt (\<lparr>case_path = path, case_data = data, case_size = sz,
                        case_md5 = md5Expected\<rparr> # cases) path
           = Uncompress rt data sz md5Expected"
  using assms by (simp add: Uncompress_def Let_def)

theorem Uncompress_verifies_checksum_witness:
  "gunzip stub_rt (take 4 [31, 139, 104, 105, 0]) = Inr [104, 105] \<and>
   Uncompress stub_rt [31, 139, 104, 105, 0] 4 ''00000209'' = Inr [104, 105] \<and>
   Uncompress stub_rt [31, 139, 104, 105, 0] 4 ''00000200'' = Inl ErrorCode_CorruptedFile"
proof -
  have h: "gunzip stub_rt (take 4 [31, 139, 104, 105, 0]) = Inr [104, 105]" by code_simp
  have m: "ComputeMD5 stub_rt [104, 105] = ''00000209''" by code_simp
  show ?thesis
    using Uncompress_verifies_checksum [OF h, of "''00000209''"]
      Uncompress_verifies_checksum [OF h, of "''00000200''"] m h
    by simp
qed

section \<open>Wrapping of the literal\<close>

lemma encode_text_short:
  "column + length cs < 120 \<Longrightarrow> encode_text column cs = encode_unwrapped cs"
  by (induction cs arbitrary: column) (simp_all add: encode_unwrapped_def)

lemma encode_text_wrap:
  "column + length xs = 120 \<Longrightarrow> xs \<noteq> [] \<Longrightarrow>
   encode_text column (xs @ ys) = encode_unwrapped xs @ wrap_text @ encode_text 0 ys"
proof (induction xs arbitrary: column)
  case Nil
  then show ?case by simp
next
  case (Cons x xs)
  show ?case
  proof (cases "xs = []")
    case True
    then show ?thesis using Cons.prems by (simp add: encode_unwrapped_def)
  next
    case False
    then have "column + 1 < 120" using Cons.prems by (cases xs) simp_all
    moreover have "encode_text (column + 1) (xs @ ys) = encode_unwrapped xs @ wrap_text @ encode_text 0 ys"
      using Cons.prems False by (intro Cons.IH) simp_all
    ultimately show ?thesis by (simp add: encode_unwrapped_def)
  qed
qed

lemma lex_run_unwrapped:
  "lex_run Inside (encode_unwrapped cs) = Some (map char_of_byte cs, Inside)"
  by (induction cs) (simp_all add: encode_unwrapped_def lex_run_append lex_run_encode_byte)

lemma cxx_literal_quoted:
  "lex_run Inside body = Some (out, Inside) \<Longrightarrow> cxx_literal ([dquote] @ body @ [dquote]) = Some out"
  by (simp add: cxx_literal_def lex_run_append inside_step_def)

lemma bytes_of_chars_of_bytes: "map (byte_of_char \<circ> char_of_byte) cs = cs"
  by (induction cs) (simp_all add: byte_of_char_of_byte)

text \<open>
  Claim C9, as amended. The literal is closed and reopened after every 120 bytes of the
  blob, whatever number of characters their encodings take: a blob of fewer than 120
  bytes is written with no break, and after exactly 120 bytes the break follows and the
  count starts again. A break never falls inside the encoding of a byte, and has no
  effect on what the literal denotes: the wrapped text and the text with no break
  denote the same bytes, which are the bytes of the blob.
\<close>

theorem wrapping_preserves_bytes:
  "(length xs < 120 \<longrightarrow> encode_text 0 xs = encode_unwrapped xs) \<and>
   (length xs = 120 \<longrightarrow>
      encode_text 0 (xs @ ys) = encode_unwrapped xs @ wrap_text @ encode_text 0 ys) \<and>
   cxx_literal ([dquote] @ encode_text 0 content @ [dquote])
     = cxx_literal ([dquote] @ encode_unwrapped content @ [dquote]) \<and>
   map_option (map byte_of_char) (cxx_literal ([dquote] @ encode_text 0 content @ [dquote]))
     = Some content"
proof -
  have a: "length xs < 120 \<Longrightarrow> encode_text 0 xs = encode_unwrapped xs"
    by (rule encode_text_short) simp
  have b: "length xs = 120 \<Longrightarrow>
      encode_text 0 (xs @ ys) = encode_unwrapped xs @ wrap_text @ encode_text 0 ys"
    by (rule encode_text_wrap) auto
  have c: "cxx_literal ([dquote] @ encode_text 0 content @ [dquote]) = Some (map char_of_byte content)"
    by (rule cxx_literal_quoted) (rule lex_run_encode_text)
  have d: "cxx_literal ([dquote] @ encode_unwrapped content @ [dquote]) = Some (map char_of_byte content)"
    by (rule cxx_literal_quoted) (rule lex_run_unwrapped)
  show ?thesis using a b by (simp only: c d) (simp add: bytes_of_chars_of_bytes)
qed

theorem wrapping_preserves_bytes_witness:
  "encode_text 0 [65] = encode_unwrapped [65] \<and>
   encode_text 0 (replicate 120 65 @ [66])
     = encode_unwrapped (replicate 120 65) @ wrap_text @ encode_text 0 [66] \<and>
   map_option (map byte_of_char)
     (cxx_literal ([dquote] @ encode_text 0 (replicate 120 65 @ [66]) @ [dquote]))
     = Some (replicate 120 65 @ [66])"
proof -
  have l: "length [65::byte] < 120" "length (replicate 120 (65::byte)) = 120" by simp_all
  show ?thesis
    using wrapping_preserves_bytes [of "[65]" "[]" "[]"]
      wrapping_preserves_bytes [of "replicate 120 65" "[66]" "replicate 120 65 @ [66]"] l
    by blast
qed

text \<open>
  The count is one of bytes, not of columns: the literal of 31 zero bytes is a single
  line of 124 characters.
\<close>

theorem wrapping_column_counterexample:
  "length (encode_text 0 (replicate 31 0)) = 124 \<and>
   newline \<notin> set (encode_text 0 (replicate 31 0))"
  by code_simp

section \<open>Names of the constants\<close>

lemma digits_of_less: "2 \<le> b \<Longrightarrow> d \<in> set (digits_of b n) \<Longrightarrow> d < b"
proof (induction b n rule: digits_of.induct)
  case (1 b n)
  show ?case
  proof (cases "n < b")
    case True
    then show ?thesis using "1.prems" by (simp add: digits_of_small)
  next
    case False
    then have "digits_of b n = digits_of b (n div b) @ [n mod b]"
      using "1.prems" by (simp add: digits_of_step)
    then show ?thesis using "1.IH" "1.prems" False by auto
  qed
qed

lemma foldl_digits_of:
  "2 \<le> b \<Longrightarrow> foldl (\<lambda>a d. b * a + d) 0 (digits_of b n) = n"
proof (induction b n rule: digits_of.induct)
  case (1 b n)
  show ?case
  proof (cases "n < b")
    case True
    then show ?thesis by (simp add: digits_of_small)
  next
    case False
    then have "digits_of b n = digits_of b (n div b) @ [n mod b]"
      using "1.prems" by (simp add: digits_of_step)
    then show ?thesis using "1.IH" "1.prems" False by simp
  qed
qed

lemma foldl_digit_chars:
  "\<forall>d \<in> set ds. d < 10 \<Longrightarrow>
   foldl (\<lambda>a c. 10 * a + (ord c - 48)) a0 (map digit_char ds) = foldl (\<lambda>a d. 10 * a + d) a0 ds"
  by (induction ds arbitrary: a0) (simp_all add: digit_char_def ord_chr)

lemma foldl_zeros:
  "foldl (\<lambda>a c. 10 * a + (ord c - 48)) 0 (replicate k (CHR ''0'')) = 0"
  by (induction k) (simp_all add: ord_def)

lemma parse_format_nat: "parse_nat (format_nat 10 w n) = n"
proof -
  have "\<forall>d \<in> set (digits_of 10 n). d < 10" using digits_of_less[of 10] by auto
  then show ?thesis
    by (simp add: parse_nat_def format_nat_def Let_def foldl_zeros foldl_digit_chars
        foldl_digits_of)
qed

lemma format_nat_digits: "c \<in> set (format_nat 10 w n) \<Longrightarrow> 48 \<le> ord c \<and> ord c < 58"
proof -
  assume "c \<in> set (format_nat 10 w n)"
  then consider "c = CHR ''0''" | d where "d \<in> set (digits_of 10 n)" "c = digit_char d"
    by (auto simp add: format_nat_def Let_def)
  then show ?thesis
  proof cases
    case 1
    then show ?thesis by (simp add: ord_def)
  next
    case 2
    then have "d < 10" using digits_of_less[of 10 d n] by simp
    then show ?thesis using 2 by (simp add: digit_char_def ord_chr)
  qed
qed

lemma variable_name_inj: "variable_name i = variable_name j \<Longrightarrow> i = j"
proof -
  assume "variable_name i = variable_name j"
  then have "format_nat 10 6 i = format_nat 10 6 j" by (simp add: variable_name_def)
  then have "parse_nat (format_nat 10 6 i) = parse_nat (format_nat 10 6 j)" by simp
  then show ?thesis by (simp add: parse_format_nat)
qed

lemma variable_name_not_md5: "variable_name i \<noteq> variable_name j @ ''_md5''"
proof
  assume "variable_name i = variable_name j @ ''_md5''"
  then have "format_nat 10 6 i = format_nat 10 6 j @ ''_md5''" by (simp add: variable_name_def)
  then have "CHR ''_'' \<in> set (format_nat 10 6 i)" by simp
  then have "48 \<le> ord (CHR ''_'') \<and> ord (CHR ''_'') < 58" by (rule format_nat_digits)
  then show False by (simp add: ord_def)
qed

section \<open>Plain texts and the object of an array\<close>

lemma lex_run_plain: "plain_text s \<Longrightarrow> lex_run Inside s = Some (s, Inside)"
  by (induction s) (simp_all add: plain_text_def plain_char_def inside_step_def)

lemma cxx_literal_plain: "plain_text s \<Longrightarrow> cxx_literal ([dquote] @ s @ [dquote]) = Some s"
  by (rule cxx_literal_quoted) (rule lex_run_plain)

lemma c_str_plain: "plain_text s \<Longrightarrow> c_str s = s"
  by (induction s) (simp_all add: plain_text_def plain_char_def c_str_def)

lemma decl_object_array:
  "decl_object (ArrayDecl variable (length z + 1) ([dquote] @ encode_text 0 z @ [dquote]))
     = Some (ByteArray (z @ [0]))"
proof -
  have "cxx_literal ([dquote] @ encode_text 0 z @ [dquote]) = Some (map char_of_byte z)"
    by (rule cxx_literal_quoted) (rule lex_run_encode_text)
  then show ?thesis by (simp add: bytes_of_chars_of_bytes)
qed

section \<open>Paths that are not plain texts\<close>

text \<open>
  The path of an asset is written between double quotes as it is (line 125 of the
  script), where the bytes of a blob are escaped. A path that holds a backslash is then
  read by the C++ compiler with its escape sequences replaced.

  Claim C1 at the file \<^verbatim>\<open>sub\b.bin\<close> (the relative path of \<^verbatim>\<open>b.bin\<close> in the folder
  \<^verbatim>\<open>sub\<close> on Windows): the conditional compares with \<^verbatim>\<open>sub\<close>, a backspace and
  \<^verbatim>\<open>.bin\<close>, so that the lookup of the file's own relative path is answered with the
  error of an unknown path instead of the bytes of the file.
\<close>

theorem unescaped_path_is_not_found:
  "ReadStaticAsset stub_rt
     (generate_unit stub_env [(''sub'' @ [bslash] @ ''b.bin'', [0, 63, 34, 92])])
     (''sub'' @ [bslash] @ ''b.bin'')
   = Some (Inl ErrorCode_InexistentItem)"
  by code_simp

text \<open>
  Claim C3 at the same folder: the path made of \<^verbatim>\<open>sub\<close>, a backspace and \<^verbatim>\<open>.bin\<close> is
  not the path of any file of the folder, and its lookup returns the bytes of the file
  \<^verbatim>\<open>sub\b.bin\<close> instead of failing.
\<close>

theorem absent_path_returns_asset:
  "ReadStaticAsset stub_rt
     (generate_unit stub_env [(''sub'' @ [bslash] @ ''b.bin'', [0, 63, 34, 92])])
     (''sub'' @ [CHR 0x08] @ ''.bin'')
   = Some (Inr [0, 63, 34, 92]) \<and>
   ''sub'' @ [CHR 0x08] @ ''.bin'' \<notin> set (map fst [(''sub'' @ [bslash] @ ''b.bin'', [0, 63, 34, 92 :: byte])])"
  by code_simp

section \<open>Files with plain paths\<close>

text \<open>
  When no path occurs twice and every path and every digest is a plain text, the unit
  the script generates is well-formed, and its conditionals are the expected ones: the
  path of each file, its compressed bytes with their length, and its digest.
\<close>

lemma cxx_declare_distinct: "cxx_declare ds = Some objs \<Longrightarrow> distinct (map fst objs)"
  by (induction ds arbitrary: objs) (auto split: option.splits if_splits)

lemma expected_objs_names:
  "name \<in> set (map fst (expected_objs env files count)) \<Longrightarrow>
   \<exists>k\<ge>count. name = variable_name k \<or> name = variable_name k @ ''_md5''"
proof (induction env files count rule: expected_objs.induct)
  case (1 env count)
  then show ?case by simp
next
  case (2 env relativePath content rest count)
  from "2.prems" consider "name = variable_name count" | "name = variable_name count @ ''_md5''"
    | "name \<in> set (map fst (expected_objs env rest (count + 1)))" by auto
  then show ?case
  proof cases
    case 3
    then obtain k where "k \<ge> count + 1" "name = variable_name k \<or> name = variable_name k @ ''_md5''"
      using "2.IH" by blast
    then show ?thesis by (intro exI[of _ k]) simp
  qed auto
qed

lemma variable_name_fresh:
  assumes "k < count"
  shows "variable_name k \<notin> set (map fst (expected_objs env files count))"
    and "variable_name k @ ''_md5'' \<notin> set (map fst (expected_objs env files count))"
proof -
  show "variable_name k \<notin> set (map fst (expected_objs env files count))"
  proof
    assume "variable_name k \<in> set (map fst (expected_objs env files count))"
    then obtain j where j: "j \<ge> count"
      "variable_name k = variable_name j \<or> variable_name k = variable_name j @ ''_md5''"
      using expected_objs_names by blast
    then show False using assms variable_name_inj[of k j] variable_name_not_md5[of k j] by auto
  qed
  show "variable_name k @ ''_md5'' \<notin> set (map fst (expected_objs env files count))"
  proof
    assume "variable_name k @ ''_md5'' \<in> set (map fst (expected_objs env files count))"
    then obtain j where j: "j \<ge> count"
      "variable_name k @ ''_md5'' = variable_name j \<or>
       variable_name k @ ''_md5'' = variable_name j @ ''_md5''"
      using expected_objs_names by blast
    then show False
      using assms variable_name_inj[of k j] variable_name_not_md5[of j k] by auto
  qed
qed

lemma cxx_declare_cons:
  "decl_object d = Some ob \<Longrightarrow> cxx_declare ds = Some objs \<Longrightarrow>
   decl_name d \<notin> set (map fst objs) \<Longrightarrow>
   cxx_declare (d # ds) = Some ((decl_name d, ob) # objs)"
  by simp

lemma cxx_declare_generate:
  "list_all (\<lambda>pc. plain_text (md5_hexdigest env (snd pc))) files \<Longrightarrow>
   cxx_declare (generate_decls env files count) = Some (expected_objs env files count)"
proof (induction env files count rule: generate_decls.induct)
  case (1 env count)
  then show ?case by simp
next
  case (2 env relativePath content rest count)
  have rest: "cxx_declare (generate_decls env rest (count + 1)) = Some (expected_objs env rest (count + 1))"
    using 2 by simp
  have md5: "cxx_literal ([dquote] @ md5_hexdigest env content @ [dquote]) = Some (md5_hexdigest env content)"
    using "2.prems" by (intro cxx_literal_plain) simp
  have arr: "decl_object (ArrayDecl (variable_name count) (length (gzip_compress env content) + 1)
               ([dquote] @ encode_text 0 (gzip_compress env content) @ [dquote]))
             = Some (ByteArray (gzip_compress env content @ [0]))"
    by (rule decl_object_array)
  have f1: "variable_name count \<notin> set (map fst (expected_objs env rest (count + 1)))"
    and f2: "variable_name count @ ''_md5'' \<notin> set (map fst (expected_objs env rest (count + 1)))"
    by (rule variable_name_fresh, simp)+
  have f3: "variable_name count \<noteq> variable_name count @ ''_md5''" by simp
  have "cxx_declare (generate_decls env ((relativePath, content) # rest) count) =
        cxx_declare (ArrayDecl (variable_name count) (length (gzip_compress env content) + 1)
               ([dquote] @ encode_text 0 (gzip_compress env content) @ [dquote])
          # StringDecl (variable_name count @ ''_md5'') (md5_hexdigest env content)
          # generate_decls env rest (count + 1))"
    by (simp add: asset_decls_def Let_def)
  also have "\<dots> = Some (expected_objs env ((relativePath, content) # rest) count)"
  proof -
    have str: "decl_object (StringDecl (variable_name count @ ''_md5'') (md5_hexdigest env content))
               = Some (CharPointer (md5_hexdigest env content))"
      using md5 by simp
    have s1: "cxx_declare (StringDecl (variable_name count @ ''_md5'') (md5_hexdigest env content)
                # generate_decls env rest (count + 1))
              = Some ((variable_name count @ ''_md5'', CharPointer (md5_hexdigest env content))
                      # expected_objs env rest (count + 1))"
      using cxx_declare_cons[OF str rest] f2 by simp
    show ?thesis
      using cxx_declare_cons[OF arr s1] f1 f3 by simp
  qed
  finally show ?case .
qed

lemma dict_set_fresh: "k \<notin> set (map fst kvs) \<Longrightarrow> dict_set k v kvs = kvs @ [(k, v)]"
  by (induction kvs) auto

lemma generate_index_distinct:
  "distinct (map fst index @ map fst files) \<Longrightarrow>
   generate_index files index count = index @ expected_index files count"
proof (induction files arbitrary: index count)
  case Nil
  then show ?case by simp
next
  case (Cons entry rest)
  obtain relativePath content where entry: "entry = (relativePath, content)" by (cases entry)
  have fresh: "relativePath \<notin> set (map fst index)" using Cons.prems entry by auto
  have d: "distinct (map fst (index @ [(relativePath, variable_name count)]) @ map fst rest)"
    using Cons.prems entry by auto
  show ?case
    unfolding entry using Cons.IH[OF d] by (simp add: dict_set_fresh[OF fresh])
qed

lemma compile_branch_expected:
  assumes "plain_text path" "plain_text md5"
    and "map_of objs v = Some (ByteArray (z @ [0]))"
    and "map_of objs (v @ ''_md5'') = Some (CharPointer md5)"
  shows "compile_branch objs (index_branch (path, v)) =
         Some \<lparr>case_path = path, case_data = z @ [0], case_size = length z, case_md5 = md5\<rparr>"
  using assms cxx_literal_plain[OF assms(1)]
  by (simp add: compile_branch_def index_branch_def c_str_plain)

lemma compile_branches_expected:
  assumes "\<And>name ob. map_of (expected_objs env files count) name = Some ob
             \<Longrightarrow> map_of objs name = Some ob"
    and "distinct (map fst (expected_objs env files count))"
    and "list_all (\<lambda>pc. plain_text (fst pc) \<and> plain_text (md5_hexdigest env (snd pc))) files"
  shows "compile_branches objs (map index_branch (expected_index files count))
         = Some (expected_cases env files)"
  using assms
proof (induction files arbitrary: count)
  case Nil
  then show ?case by simp
next
  case (Cons entry rest)
  obtain relativePath content where entry: "entry = (relativePath, content)" by (cases entry)
  let ?v = "variable_name count"
  have ne: "?v @ ''_md5'' \<noteq> ?v" by simp
  have l1: "map_of objs ?v = Some (ByteArray (gzip_compress env content @ [0]))"
    by (rule Cons.prems(1)) (simp add: entry)
  have l2: "map_of objs (?v @ ''_md5'') = Some (CharPointer (md5_hexdigest env content))"
    by (rule Cons.prems(1)) (simp add: entry ne)
  have b: "compile_branch objs (index_branch (relativePath, ?v)) =
         Some \<lparr>case_path = relativePath, case_data = gzip_compress env content @ [0],
               case_size = length (gzip_compress env content),
               case_md5 = md5_hexdigest env content\<rparr>"
    using Cons.prems(3) l1 l2 unfolding entry by (intro compile_branch_expected) simp_all
  have r1: "map_of objs name = Some ob"
    if n: "map_of (expected_objs env rest (count + 1)) name = Some ob" for name ob
  proof -
    have "name \<in> set (map fst (expected_objs env rest (count + 1)))"
      using n by (metis map_of_eq_None_iff option.distinct(1) set_map)
    then have "name \<noteq> ?v" "name \<noteq> ?v @ ''_md5''"
      using Cons.prems(2) unfolding entry by force+
    then have "map_of (expected_objs env (entry # rest) count) name = Some ob"
      using n by (simp add: entry)
    then show ?thesis by (rule Cons.prems(1))
  qed
  have r2: "distinct (map fst (expected_objs env rest (count + 1)))"
    using Cons.prems(2) unfolding entry by simp
  have r3: "list_all (\<lambda>pc. plain_text (fst pc) \<and> plain_text (md5_hexdigest env (snd pc))) rest"
    using Cons.prems(3) by simp
  have "compile_branches objs (map index_branch (expected_index rest (count + 1)))
         = Some (expected_cases env rest)"
    using r1 r2 r3 by (rule Cons.IH)
  then show ?case
    unfolding entry using b by simp
qed

lemma cxx_compile_generate:
  assumes "plain_files env files"
  shows "cxx_compile (generate_unit env files) = Some (expected_cases env files)"
proof -
  have p: "list_all (\<lambda>pc. plain_text (fst pc) \<and> plain_text (md5_hexdigest env (snd pc))) files"
    and dist: "distinct (map fst files)"
    using assms by (simp_all add: plain_files_def)
  have m: "list_all (\<lambda>pc. plain_text (md5_hexdigest env (snd pc))) files"
    using p by (simp add: list_all_iff)
  have decl: "cxx_declare (generate_decls env files 0) = Some (expected_objs env files 0)"
    using m by (rule cxx_declare_generate)
  have idx: "generate_index files [] 0 = expected_index files 0"
    using generate_index_distinct[of "[]" files 0] dist by simp
  have br: "compile_branches (expected_objs env files 0) (map index_branch (expected_index files 0))
            = Some (expected_cases env files)"
    using cxx_declare_distinct[OF decl] p by (intro compile_branches_expected) simp_all
  show ?thesis by (simp add: cxx_compile_def generate_unit_def decl idx br)
qed

text \<open>
  For such files, with a decompressor that inverts the compressor and the two digest
  functions in agreement, the lookup of the path of a file returns the bytes of the
  file, and the lookup of any other path fails with the error of an unknown path.
\<close>

lemma dispatch_expected_found:
  "distinct (map fst files) \<Longrightarrow> (path, content) \<in> set files \<Longrightarrow>
   dispatch rt (expected_cases env files) path =
     Uncompress rt (gzip_compress env content @ [0]) (length (gzip_compress env content))
       (md5_hexdigest env content)"
proof (induction files)
  case Nil
  then show ?case by simp
next
  case (Cons entry rest)
  obtain p c where entry: "entry = (p, c)" by (cases entry)
  show ?case
  proof (cases "path = p")
    case True
    then have "content = c" using Cons.prems entry by force
    then show ?thesis using True entry by simp
  next
    case False
    then show ?thesis using Cons entry by simp
  qed
qed

lemma dispatch_expected_missing:
  "path \<notin> set (map fst files) \<Longrightarrow>
   dispatch rt (expected_cases env files) path = Inl ErrorCode_InexistentItem"
  by (induction files) auto

lemma Uncompress_roundtrip:
  assumes "gunzip rt (gzip_compress env content) = Inr content"
    and "ComputeMD5 rt content = md5_hexdigest env content"
  shows "Uncompress rt (gzip_compress env content @ [0]) (length (gzip_compress env content))
           (md5_hexdigest env content) = Inr content"
  using assms by (simp add: Uncompress_def)

lemma roundtrip_plain_files:
  assumes "plain_files env files"
    and "\<And>x. gunzip rt (gzip_compress env x) = Inr x"
    and "\<And>x. ComputeMD5 rt x = md5_hexdigest env x"
    and "(path, content) \<in> set files"
  shows "ReadStaticAsset rt (generate_unit env files) path = Some (Inr content)"
proof -
  have "distinct (map fst files)" using assms(1) by (simp add: plain_files_def)
  then have "dispatch rt (expected_cases env files) path = Inr content"
    using assms(4) by (simp add: dispatch_expected_found Uncompress_roundtrip assms(2,3))
  then show ?thesis
    by (simp add: ReadStaticAsset_def cxx_compile_generate[OF assms(1)])
qed

lemma unknown_path_plain_files:
  assumes "plain_files env files" and "path \<notin> set (map fst files)"
  shows "ReadStaticAsset rt (generate_unit env files) path = Some (Inl ErrorCode_InexistentItem)"
  using assms(2)
  by (simp add: ReadStaticAsset_def cxx_compile_generate[OF assms(1)] dispatch_expected_missing)

lemma stub_tree_plain: "plain_files stub_env stub_tree"
  by code_simp

lemma stub_gunzip: "gunzip stub_rt (gzip_compress stub_env x) = Inr x"
  by (simp add: stub_rt_def stub_env_def)

lemma stub_digest_agrees: "ComputeMD5 stub_rt x = md5_hexdigest stub_env x"
  by (simp add: stub_rt_def stub_env_def)

lemma scenario_of_the_specification:
  "ReadStaticAsset stub_rt (generate_unit stub_env stub_tree) ''a.txt''
     = Some (Inr [104, 101, 108, 108, 111]) \<and>
   ReadStaticAsset stub_rt (generate_unit stub_env stub_tree) ''sub/b.bin''
     = Some (Inr [0, 63, 34, 92]) \<and>
   ReadStaticAsset stub_rt (generate_unit stub_env stub_tree) ''missing.txt''
     = Some (Inl ErrorCode_InexistentItem)"
proof -
  have a: "(''a.txt'', [104, 101, 108, 108, 111]) \<in> set stub_tree"
    and b: "(''sub/b.bin'', [0, 63, 34, 92]) \<in> set stub_tree"
    and c: "''missing.txt'' \<notin> set (map fst stub_tree)"
    by (simp_all add: stub_tree_def)
  show ?thesis
    using roundtrip_plain_files[OF stub_tree_plain stub_gunzip stub_digest_agrees a]
      roundtrip_plain_files[OF stub_tree_plain stub_gunzip stub_digest_agrees b]
      unknown_path_plain_files[OF stub_tree_plain c]
    by simp
qed

section \<open>The target after the script has run\<close>

text \<open>
  No statement of the script removes a file from the store: once the target has been
  opened it is still there when the \<^verbatim>\<open>with\<close> statement is left, by its end or by an
  exception, and it is then closed.
\<close>

lemma fwrite_present: "has_file d h \<Longrightarrow> has_file (snd (fwrite f txt d)) h"
  by (auto simp add: has_file_def fwrite_def split: option.splits)

lemma io_bind_present:
  assumes "\<And>d. has_file d h \<Longrightarrow> has_file (snd (m d)) h"
    and "\<And>x d. has_file d h \<Longrightarrow> has_file (snd (k x d)) h"
    and "has_file d h"
  shows "has_file (snd (io_bind m k d)) h"
proof (cases "m d")
  case (Pair r d')
  then have p: "has_file d' h" using assms(1)[OF assms(3)] by simp
  show ?thesis
  proof (cases r)
    case (Inl e)
    then show ?thesis using Pair p by (simp add: io_bind_def)
  next
    case (Inr x)
    then show ?thesis using Pair assms(2)[OF p, of x] by (simp add: io_bind_def)
  qed
qed

lemma io_then_present:
  assumes "\<And>d. has_file d h \<Longrightarrow> has_file (snd (m d)) h"
    and "\<And>d. has_file d h \<Longrightarrow> has_file (snd (k d)) h"
    and "has_file d h"
  shows "has_file (snd (io_then m k d)) h"
  unfolding io_then_def using assms by (intro io_bind_present) auto

lemma encode_loop_present:
  "has_file d h \<Longrightarrow> has_file (snd (encode_loop f column cs d)) h"
proof (induction f column cs arbitrary: d rule: encode_loop.induct)
  case (1 f column)
  then show ?case by (simp add: io_return_def)
next
  case (2 f column c cs)
  show ?case
    unfolding encode_loop.simps
  proof (rule io_then_present[OF _ _ "2.prems"])
    fix d' :: disk assume "has_file d' h"
    then show "has_file (snd (fwrite f (encode_byte c) d')) h" by (rule fwrite_present)
  next
    fix d' :: disk assume p: "has_file d' h"
    show "has_file (snd ((if 120 \<le> column + 1 then io_then (fwrite f wrap_text) (encode_loop f 0 cs)
               else encode_loop f (column + 1) cs) d')) h"
    proof (cases "120 \<le> column + 1")
      case True
      have "has_file (snd (io_then (fwrite f wrap_text) (encode_loop f 0 cs) d')) h"
        by (rule io_then_present[OF _ _ p]) (auto intro: fwrite_present "2.IH"(1)[OF True])
      then show ?thesis using True by simp
    next
      case False
      then show ?thesis using "2.IH"(2)[OF False p] by simp
    qed
  qed
qed

lemma EncodeFileAsCString_present:
  "has_file d h \<Longrightarrow> has_file (snd (EncodeFileAsCString f variable content d)) h"
  unfolding EncodeFileAsCString_def
  by (intro io_then_present fwrite_present encode_loop_present)

lemma WriteChecksum_present:
  "has_file d h \<Longrightarrow> has_file (snd (WriteChecksum env g f variable content d)) h"
  by (cases g) (simp_all add: WriteChecksum_def io_raise_def fwrite_present)

lemma walk_loop_present:
  "has_file d h \<Longrightarrow> has_file (snd (walk_loop env g entries index count d)) h"
proof (induction env g entries index count arbitrary: d rule: walk_loop.induct)
  case (1 env g index count)
  then show ?case by (simp add: io_return_def)
next
  case (2 env g relativePath rest index count)
  then show ?case by (simp add: io_raise_def)
next
  case (3 env g relativePath content rest index count)
  show ?case
    unfolding walk_loop.simps Let_def
    by (intro io_then_present EncodeFileAsCString_present WriteChecksum_present "3.IH" "3.prems")
       simp_all
qed

lemma dispatch_loop_present:
  "has_file d h \<Longrightarrow> has_file (snd (dispatch_loop g index d)) h"
proof (induction g index arbitrary: d rule: dispatch_loop.induct)
  case (1 g)
  then show ?case by (simp add: io_return_def)
next
  case (2 g path variable rest)
  show ?case
    unfolding dispatch_loop.simps
    by (intro io_then_present fwrite_present "2.IH" "2.prems")
qed

lemma with_body_present:
  "has_file d h \<Longrightarrow> has_file (snd (with_body env SOURCE g d)) h"
  unfolding with_body_def
proof (intro io_then_present io_bind_present fwrite_present walk_loop_present)
  fix x :: "(string \<times> string) list \<times> nat" and d' :: disk
  assume p: "has_file d' h"
  obtain index count where x: "x = (index, count)" by (cases x)
  show "has_file (snd ((case x of (index, count) \<Rightarrow>
               io_then (fwrite g dispatch_header)
                 (io_then (dispatch_loop g index) (fwrite g dispatch_footer))) d')) h"
    unfolding x prod.case
    by (intro io_then_present fwrite_present dispatch_loop_present p)
qed

lemma main_closes_target:
  assumes "length args = 2" "isdir env (args ! 0)" "can_open env (args ! 1)"
  shows "\<exists>p. snd (main env prog args d) (args ! 1) = Some p \<and> \<not> is_open p"
proof -
  let ?d0 = "d(args ! 1 \<mapsto> \<lparr>is_open = True, written = []\<rparr>)"
  obtain r d' where w: "with_body env (args ! 0) (args ! 1) ?d0 = (r, d')"
    by (cases "with_body env (args ! 0) (args ! 1) ?d0")
  have "has_file ?d0 (args ! 1)" by (simp add: has_file_def)
  then have "has_file (snd (with_body env (args ! 0) (args ! 1) ?d0)) (args ! 1)"
    by (rule with_body_present)
  then obtain p where p: "d' (args ! 1) = Some p" using w by (auto simp add: has_file_def)
  have "main env prog args d = (r, fclose (args ! 1) d')"
    using assms w by (simp add: main_def Let_def fopen_w_def)
  then show ?thesis using p by (simp add: fclose_def)
qed

section \<open>The checksum constant is written to the global file\<close>

text \<open>
  Claim C10. \<^verbatim>\<open>WriteChecksum\<close> does not use its parameter \<^verbatim>\<open>f\<close>: it writes the
  constant to the file bound to the module-level name \<^verbatim>\<open>g\<close>, whatever file is passed,
  and leaves the file passed as \<^verbatim>\<open>f\<close> as it was. It raises when \<^verbatim>\<open>g\<close> is not bound:
  so it is before the \<^verbatim>\<open>with\<close> statement, and so it stays when the script ends at one
  of its two checks or at a target that cannot be opened. It raises when the file bound
  to \<^verbatim>\<open>g\<close> is closed: so it is once the target was opened and the \<^verbatim>\<open>with\<close> statement
  has been left, whether the run completed or a file could not be read.
\<close>

theorem WriteChecksum_writes_to_global:
  "WriteChecksum env g f variable content d = WriteChecksum env g f' variable content d \<and>
   WriteChecksum env None f variable content d = (Inl UnboundGlobal, d) \<and>
   (writable d gf \<longrightarrow>
      WriteChecksum env (Some gf) f variable content d
        = (Inr (), fappend gf (checksum_text variable (md5_hexdigest env content)) d)) \<and>
   (writable d gf \<and> f \<noteq> gf \<longrightarrow>
      snd (WriteChecksum env (Some gf) f variable content d) f = d f) \<and>
   (d gf = Some p \<and> \<not> is_open p \<longrightarrow>
      WriteChecksum env (Some gf) f variable content d = (Inl ClosedFile, d)) \<and>
   (length args = 2 \<and> isdir env (args ! 0) \<and> can_open env (args ! 1) \<longrightarrow>
      global_g env prog args = Some (args ! 1) \<and>
      WriteChecksum env (global_g env prog args) f variable content (snd (main env prog args d))
        = (Inl ClosedFile, snd (main env prog args d))) \<and>
   (length args \<noteq> 2 \<or> \<not> isdir env (args ! 0) \<or> \<not> can_open env (args ! 1) \<longrightarrow>
      global_g env prog args = None \<and>
      main env prog args d
        = (Inl (if length args \<noteq> 2 then Usage prog
                else if \<not> isdir env (args ! 0) then NonexistentSource (args ! 0)
                else OpenFailed (args ! 1)), d) \<and>
      WriteChecksum env (global_g env prog args) f variable content (snd (main env prog args d))
        = (Inl UnboundGlobal, snd (main env prog args d)))"
proof -
  have a: "WriteChecksum env g f variable content d = WriteChecksum env g f' variable content d"
    by (simp add: WriteChecksum_def)
  have b: "WriteChecksum env None f variable content d' = (Inl UnboundGlobal, d')" for d'
    by (simp add: WriteChecksum_def io_raise_def)
  have c: "d' gf = Some p' \<Longrightarrow> \<not> is_open p' \<Longrightarrow>
      WriteChecksum env (Some gf) f variable content d' = (Inl ClosedFile, d')" for d' gf p'
    by (simp add: WriteChecksum_def fwrite_def)
  have e: "global_g env prog args = Some (args ! 1) \<and>
      WriteChecksum env (global_g env prog args) f variable content (snd (main env prog args d))
        = (Inl ClosedFile, snd (main env prog args d))"
    if run: "length args = 2" "isdir env (args ! 0)" "can_open env (args ! 1)"
  proof -
    obtain p' where "snd (main env prog args d) (args ! 1) = Some p'" "\<not> is_open p'"
      using main_closes_target[OF run] by blast
    then have "WriteChecksum env (Some (args ! 1)) f variable content (snd (main env prog args d))
        = (Inl ClosedFile, snd (main env prog args d))"
      by (rule c)
    then show ?thesis using run by (simp add: global_g_def)
  qed
  have u: "global_g env prog args = None \<and>
      main env prog args d
        = (Inl (if length args \<noteq> 2 then Usage prog
                else if \<not> isdir env (args ! 0) then NonexistentSource (args ! 0)
                else OpenFailed (args ! 1)), d) \<and>
      WriteChecksum env (global_g env prog args) f variable content (snd (main env prog args d))
        = (Inl UnboundGlobal, snd (main env prog args d))"
    if "length args \<noteq> 2 \<or> \<not> isdir env (args ! 0) \<or> \<not> can_open env (args ! 1)"
  proof -
    have g: "global_g env prog args = None"
      using that by (auto simp add: global_g_def Let_def)
    have m: "main env prog args d
        = (Inl (if length args \<noteq> 2 then Usage prog
                else if \<not> isdir env (args ! 0) then NonexistentSource (args ! 0)
                else OpenFailed (args ! 1)), d)"
      using that by (auto simp add: main_def Let_def fopen_w_def)
    show ?thesis by (simp only: g b) (simp add: m)
  qed
  have h3: "writable d gf \<longrightarrow>
      WriteChecksum env (Some gf) f variable content d
        = (Inr (), fappend gf (checksum_text variable (md5_hexdigest env content)) d)"
    by (simp add: WriteChecksum_ok)
  have h4: "writable d gf \<and> f \<noteq> gf \<longrightarrow>
      snd (WriteChecksum env (Some gf) f variable content d) f = d f"
    by (simp add: WriteChecksum_ok fappend_other)
  have h5: "d gf = Some p \<and> \<not> is_open p \<longrightarrow>
      WriteChecksum env (Some gf) f variable content d = (Inl ClosedFile, d)"
    using c[of d gf p] by simp
  from a b[of d] h3 h4 h5 e u show ?thesis by blast
qed

theorem WriteChecksum_writes_to_global_witness:
  "WriteChecksum stub_env (Some ''out.cpp'') ''other.txt'' ''data_000000_md5'' [104, 105]
     [''out.cpp'' \<mapsto> \<lparr>is_open = True, written = ''//''\<rparr>,
      ''other.txt'' \<mapsto> \<lparr>is_open = True, written = []\<rparr>]
   = (Inr (),
      [''out.cpp'' \<mapsto> \<lparr>is_open = True,
          written = ''//static const char* data_000000_md5 = '' @ [dquote] @ ''00000209'' @ [dquote]
                    @ '';'' @ [newline, newline]\<rparr>,
       ''other.txt'' \<mapsto> \<lparr>is_open = True, written = []\<rparr>]) \<and>
   WriteChecksum stub_env (Some ''out.cpp'') ''other.txt'' ''data_000000_md5'' [104, 105]
     [''out.cpp'' \<mapsto> \<lparr>is_open = False, written = ''//''\<rparr>]
   = (Inl ClosedFile, [''out.cpp'' \<mapsto> \<lparr>is_open = False, written = ''//''\<rparr>]) \<and>
   global_g stub_env ''prog'' [''www'', ''out.cpp''] = Some ''out.cpp'' \<and>
   WriteChecksum stub_env (global_g stub_env ''prog'' [''www'', ''out.cpp'']) ''other.txt''
     ''data_000000_md5'' [104, 105] (snd (main stub_env ''prog'' [''www'', ''out.cpp''] Map.empty))
   = (Inl ClosedFile, snd (main stub_env ''prog'' [''www'', ''out.cpp''] Map.empty)) \<and>
   main stub_env ''prog'' [''www'', ''nodir/out.cpp''] Map.empty
   = (Inl (OpenFailed ''nodir/out.cpp''), Map.empty) \<and>
   WriteChecksum stub_env (global_g stub_env ''prog'' [''www'', ''nodir/out.cpp'']) ''other.txt''
     ''data_000000_md5'' [104, 105]
     (snd (main stub_env ''prog'' [''www'', ''nodir/out.cpp''] Map.empty))
   = (Inl UnboundGlobal, snd (main stub_env ''prog'' [''www'', ''nodir/out.cpp''] Map.empty))"
proof -
  let ?d = "[''out.cpp'' \<mapsto> \<lparr>is_open = True, written = ''//''\<rparr>,
             ''other.txt'' \<mapsto> \<lparr>is_open = True, written = []\<rparr>]"
  let ?c = "[''out.cpp'' \<mapsto> \<lparr>is_open = False, written = ''//''\<rparr>]"
  have w: "writable ?d ''out.cpp''" by (simp add: writable_def)
  have m: "md5_hexdigest stub_env [104, 105] = ''00000209''" by code_simp
  have h5: "?c ''out.cpp'' = Some \<lparr>is_open = False, written = ''//''\<rparr>
            \<and> \<not> is_open \<lparr>is_open = False, written = ''//''\<rparr>" by simp
  have h6: "length [''www'', ''out.cpp''] = 2 \<and> isdir stub_env ([''www'', ''out.cpp''] ! 0) \<and>
            can_open stub_env ([''www'', ''out.cpp''] ! 1)"
    by (simp add: stub_env_def)
  have h7: "\<not> can_open stub_env ([''www'', ''nodir/out.cpp''] ! 1)"
    and l7: "length [''www'', ''nodir/out.cpp''] = 2" and i7: "isdir stub_env ([''www'', ''nodir/out.cpp''] ! 0)"
    by (simp_all add: stub_env_def)
  have t1: "WriteChecksum stub_env (Some ''out.cpp'') ''other.txt'' ''data_000000_md5'' [104, 105] ?d
     = (Inr (), fappend ''out.cpp'' (checksum_text ''data_000000_md5'' (md5_hexdigest stub_env [104, 105])) ?d)"
    using WriteChecksum_writes_to_global [of stub_env "Some ''out.cpp''" "''other.txt''"
        "''data_000000_md5''" "[104, 105]" ?d "''other.txt''" "''out.cpp''"] w
    by blast
  have t2: "WriteChecksum stub_env (Some ''out.cpp'') ''other.txt'' ''data_000000_md5'' [104, 105] ?c
     = (Inl ClosedFile, ?c)"
    using WriteChecksum_writes_to_global [of stub_env "Some ''out.cpp''" "''other.txt''"
        "''data_000000_md5''" "[104, 105]" ?c "''other.txt''" "''out.cpp''"
        "\<lparr>is_open = False, written = ''//''\<rparr>"] h5
    by blast
  have t3: "global_g stub_env ''prog'' [''www'', ''out.cpp''] = Some ([''www'', ''out.cpp''] ! 1) \<and>
   WriteChecksum stub_env (global_g stub_env ''prog'' [''www'', ''out.cpp'']) ''other.txt''
     ''data_000000_md5'' [104, 105] (snd (main stub_env ''prog'' [''www'', ''out.cpp''] Map.empty))
   = (Inl ClosedFile, snd (main stub_env ''prog'' [''www'', ''out.cpp''] Map.empty))"
    using WriteChecksum_writes_to_global [of stub_env "None" "''other.txt''"
        "''data_000000_md5''" "[104, 105]" Map.empty "''other.txt''" "''out.cpp''"
        "\<lparr>is_open = False, written = ''//''\<rparr>" "[''www'', ''out.cpp'']" "''prog''"] h6
    by blast
  have t4: "main stub_env ''prog'' [''www'', ''nodir/out.cpp''] Map.empty
   = (Inl (if length [''www'', ''nodir/out.cpp''] \<noteq> 2 then Usage ''prog''
           else if \<not> isdir stub_env ([''www'', ''nodir/out.cpp''] ! 0)
                then NonexistentSource ([''www'', ''nodir/out.cpp''] ! 0)
                else OpenFailed ([''www'', ''nodir/out.cpp''] ! 1)), Map.empty) \<and>
   WriteChecksum stub_env (global_g stub_env ''prog'' [''www'', ''nodir/out.cpp'']) ''other.txt''
     ''data_000000_md5'' [104, 105]
     (snd (main stub_env ''prog'' [''www'', ''nodir/out.cpp''] Map.empty))
   = (Inl UnboundGlobal, snd (main stub_env ''prog'' [''www'', ''nodir/out.cpp''] Map.empty))"
    using WriteChecksum_writes_to_global [of stub_env "None" "''other.txt''"
        "''data_000000_md5''" "[104, 105]" Map.empty "''other.txt''" "''out.cpp''"
        "\<lparr>is_open = False, written = ''//''\<rparr>" "[''www'', ''nodir/out.cpp'']" "''prog''"] h7
    by blast
  have f: "fappend ''out.cpp'' (checksum_text ''data_000000_md5'' ''00000209'') ?d
           = [''out.cpp'' \<mapsto> \<lparr>is_open = True,
          written = ''//static const char* data_000000_md5 = '' @ [dquote] @ ''00000209'' @ [dquote]
                    @ '';'' @ [newline, newline]\<rparr>,
       ''other.txt'' \<mapsto> \<lparr>is_open = True, written = []\<rparr>]"
    by (auto simp add: fappend_def checksum_text_def fun_upd_twist)
  have t1': "WriteChecksum stub_env (Some ''out.cpp'') ''other.txt'' ''data_000000_md5'' [104, 105] ?d
     = (Inr (),
      [''out.cpp'' \<mapsto> \<lparr>is_open = True,
          written = ''//static const char* data_000000_md5 = '' @ [dquote] @ ''00000209'' @ [dquote]
                    @ '';'' @ [newline, newline]\<rparr>,
       ''other.txt'' \<mapsto> \<lparr>is_open = True, written = []\<rparr>])"
    using t1 by (simp only: m f)
  have t3': "global_g stub_env ''prog'' [''www'', ''out.cpp''] = Some ''out.cpp''"
    using t3 by simp
  have t4': "main stub_env ''prog'' [''www'', ''nodir/out.cpp''] Map.empty
   = (Inl (OpenFailed ''nodir/out.cpp''), Map.empty)"
    using t4 l7 i7 h7 by simp
  from t1' t2 t3 t3' t4 t4' show ?thesis by blast
qed

section \<open>The checksum constant\<close>

lemma generate_decls_split:
  "i < length files \<Longrightarrow>
   generate_decls env files count =
     generate_decls env (take i files) count
     @ asset_decls env (count + i) (snd (files ! i))
     @ generate_decls env (drop (Suc i) files) (count + Suc i)"
proof (induction files arbitrary: i count)
  case Nil
  then show ?case by simp
next
  case (Cons entry rest)
  obtain relativePath content where entry: "entry = (relativePath, content)" by (cases entry)
  show ?case
  proof (cases i)
    case 0
    then show ?thesis by (simp add: entry)
  next
    case (Suc j)
    then have "j < length rest" using Cons.prems by simp
    then have "generate_decls env rest (count + 1) =
       generate_decls env (take j rest) (count + 1)
       @ asset_decls env (count + 1 + j) (snd (rest ! j))
       @ generate_decls env (drop (Suc j) rest) (count + 1 + Suc j)"
      by (rule Cons.IH)
    then show ?thesis using Suc by (simp add: entry)
  qed
qed

lemma expected_cases_nth:
  "i < length files \<Longrightarrow>
   expected_cases env files ! i =
     \<lparr>case_path = fst (files ! i), case_data = gzip_compress env (snd (files ! i)) @ [0],
      case_size = length (gzip_compress env (snd (files ! i))),
      case_md5 = md5_hexdigest env (snd (files ! i))\<rparr>"
proof (induction files arbitrary: i)
  case Nil
  then show ?case by simp
next
  case (Cons entry rest)
  obtain relativePath content where entry: "entry = (relativePath, content)" by (cases entry)
  show ?case using Cons by (cases i) (simp_all add: entry)
qed

lemma main_writes_asset:
  assumes "length args = 2" and "isdir env (args ! 0)" and "can_open env (args ! 1)"
    and "walk_files env (args ! 0) = all_read files" and "i < length files"
  shows "main env prog args d =
     (Inr (), d(args ! 1 \<mapsto> \<lparr>is_open = False, written =
        preamble
        @ concat (map render_decl (generate_decls env (take i files) 0))
        @ concat (map render_decl (asset_decls env i (snd (files ! i))))
        @ concat (map render_decl (generate_decls env (drop (Suc i) files) (Suc i)))
        @ dispatch_header
        @ concat (map render_branch (map index_branch (generate_index files [] 0)))
        @ dispatch_footer\<rparr>))"
proof -
  have "generate_decls env files 0 =
     generate_decls env (take i files) 0
     @ asset_decls env (0 + i) (snd (files ! i))
     @ generate_decls env (drop (Suc i) files) (0 + Suc i)"
    using assms(5) by (rule generate_decls_split)
  then have "render_unit (generate_unit env files) =
        preamble
        @ concat (map render_decl (generate_decls env (take i files) 0))
        @ concat (map render_decl (asset_decls env i (snd (files ! i))))
        @ concat (map render_decl (generate_decls env (drop (Suc i) files) (Suc i)))
        @ dispatch_header
        @ concat (map render_branch (map index_branch (generate_index files [] 0)))
        @ dispatch_footer"
    by (simp add: render_unit_def generate_unit_def)
  then show ?thesis
    using main_writes_unit[OF assms(1-4), of prog d] by simp
qed

text \<open>
  Claim C2. When the script runs to its end, the target holds, for the file at every
  position \<open>i\<close> of the traversal, right after the array \<^verbatim>\<open>data_i\<close> of the compressed
  bytes, the constant \<^verbatim>\<open>static const char* data_i_md5 = "..."\<close> whose text is the
  hexadecimal digest of the bytes read from that file, not of the compressed ones. When
  paths and digests are plain texts, the conditional of the path of the file passes
  that digest to \<^verbatim>\<open>Uncompress\<close>.
\<close>

theorem checksum_constant_written:
  assumes "length args = 2" and "isdir env (args ! 0)" and "can_open env (args ! 1)"
    and "walk_files env (args ! 0) = all_read files" and "i < length files"
  shows "main env prog args d =
     (Inr (), d(args ! 1 \<mapsto> \<lparr>is_open = False, written =
        preamble
        @ concat (map render_decl (generate_decls env (take i files) 0))
        @ render_decl (ArrayDecl (variable_name i) (length (gzip_compress env (snd (files ! i))) + 1)
            ([dquote] @ encode_text 0 (gzip_compress env (snd (files ! i))) @ [dquote]))
        @ (''static const char* '' @ variable_name i @ ''_md5'' @ '' = '' @ [dquote]
           @ md5_hexdigest env (snd (files ! i)) @ [dquote] @ '';'' @ [newline, newline])
        @ concat (map render_decl (generate_decls env (drop (Suc i) files) (Suc i)))
        @ dispatch_header
        @ concat (map render_branch (map index_branch (generate_index files [] 0)))
        @ dispatch_footer\<rparr>)) \<and>
     (plain_files env files \<longrightarrow>
        map_option (\<lambda>cases. (case_path (cases ! i), case_md5 (cases ! i)))
          (cxx_compile (generate_unit env files))
        = Some (fst (files ! i), md5_hexdigest env (snd (files ! i))))"
proof -
  have t: "concat (map render_decl (asset_decls env i (snd (files ! i)))) =
        render_decl (ArrayDecl (variable_name i) (length (gzip_compress env (snd (files ! i))) + 1)
            ([dquote] @ encode_text 0 (gzip_compress env (snd (files ! i))) @ [dquote]))
        @ (''static const char* '' @ variable_name i @ ''_md5'' @ '' = '' @ [dquote]
           @ md5_hexdigest env (snd (files ! i)) @ [dquote] @ '';'' @ [newline, newline])"
    by (simp add: asset_decls_def Let_def)
  have a: "main env prog args d =
     (Inr (), d(args ! 1 \<mapsto> \<lparr>is_open = False, written =
        preamble
        @ concat (map render_decl (generate_decls env (take i files) 0))
        @ render_decl (ArrayDecl (variable_name i) (length (gzip_compress env (snd (files ! i))) + 1)
            ([dquote] @ encode_text 0 (gzip_compress env (snd (files ! i))) @ [dquote]))
        @ (''static const char* '' @ variable_name i @ ''_md5'' @ '' = '' @ [dquote]
           @ md5_hexdigest env (snd (files ! i)) @ [dquote] @ '';'' @ [newline, newline])
        @ concat (map render_decl (generate_decls env (drop (Suc i) files) (Suc i)))
        @ dispatch_header
        @ concat (map render_branch (map index_branch (generate_index files [] 0)))
        @ dispatch_footer\<rparr>))"
    using main_writes_asset[OF assms, of prog d] unfolding t by (simp only: append_assoc)
  have b: "map_option (\<lambda>cases. (case_path (cases ! i), case_md5 (cases ! i)))
          (cxx_compile (generate_unit env files))
        = Some (fst (files ! i), md5_hexdigest env (snd (files ! i)))"
    if "plain_files env files"
    by (simp add: cxx_compile_generate[OF that] expected_cases_nth[OF assms(5)])
  from a b show ?thesis by blast
qed

theorem checksum_constant_written_witness:
  "fst (main stub_env ''prog'' [''www'', ''out.cpp''] Map.empty) = Inr () \<and>
   map_option (\<lambda>cases. (case_path (cases ! 1), case_md5 (cases ! 1)))
     (cxx_compile (generate_unit stub_env stub_tree))
   = Some (fst (stub_tree ! 1), md5_hexdigest stub_env (snd (stub_tree ! 1))) \<and>
   md5_hexdigest stub_env (snd (stub_tree ! 1)) = ''00000189''"
proof -
  have h: "length [''www'', ''out.cpp''] = 2" "isdir stub_env ([''www'', ''out.cpp''] ! 0)"
    "can_open stub_env ([''www'', ''out.cpp''] ! 1)"
    "walk_files stub_env ([''www'', ''out.cpp''] ! 0) = all_read stub_tree"
    "1 < length stub_tree"
    by (simp_all add: stub_env_def stub_tree_def)
  have m: "md5_hexdigest stub_env (snd (stub_tree ! 1)) = ''00000189''" by code_simp
  note inst = checksum_constant_written [OF h, of "''prog''" Map.empty]
  from inst have a: "fst (main stub_env ''prog'' [''www'', ''out.cpp''] Map.empty) = Inr ()"
    by simp
  from inst stub_tree_plain have b:
    "map_option (\<lambda>cases. (case_path (cases ! 1), case_md5 (cases ! 1)))
       (cxx_compile (generate_unit stub_env stub_tree))
     = Some (fst (stub_tree ! 1), md5_hexdigest stub_env (snd (stub_tree ! 1)))"
    by blast
  from a b m show ?thesis by blast
qed

section \<open>Declared size and size passed to the decompressor\<close>

lemma render_branch_spelled:
  "render_branch (index_branch pv) =
     ''  if (path == '' @ [dquote] @ fst pv @ [dquote] @ '')'' @ [newline]
     @ ''  {'' @ [newline]
     @ ''    Uncompress(target, '' @ snd pv @ '', sizeof('' @ snd pv @ '') - 1, '' @ snd pv
     @ ''_md5);'' @ [newline]
     @ ''    return;'' @ [newline]
     @ ''  }'' @ [newline, newline]"
  by (simp add: render_branch_def index_branch_def)

lemma cxx_declare_lookup:
  "cxx_declare ds = Some objs \<Longrightarrow> dcl \<in> set ds \<Longrightarrow>
   \<exists>ob. decl_object dcl = Some ob \<and> map_of objs (decl_name dcl) = Some ob"
proof (induction ds arbitrary: objs)
  case Nil
  then show ?case by simp
next
  case (Cons d0 ds)
  from Cons.prems(1) obtain ob0 objs0 where
    o: "decl_object d0 = Some ob0" and r: "cxx_declare ds = Some objs0"
    and fresh: "decl_name d0 \<notin> set (map fst objs0)" and objs: "objs = (decl_name d0, ob0) # objs0"
    by (auto split: option.splits if_splits)
  show ?case
  proof (cases "dcl = d0")
    case True
    then show ?thesis using o objs by simp
  next
    case False
    then have "dcl \<in> set ds" using Cons.prems(2) by simp
    then obtain ob where ob: "decl_object dcl = Some ob" "map_of objs0 (decl_name dcl) = Some ob"
      using Cons.IH[OF r] by blast
    then have "decl_name dcl \<in> set (map fst objs0)"
      by (metis map_of_eq_None_iff option.distinct(1) set_map)
    then have "decl_name dcl \<noteq> decl_name d0" using fresh by force
    then show ?thesis using ob objs by simp
  qed
qed

lemma array_decl_generated:
  "k < length files \<Longrightarrow>
   ArrayDecl (variable_name (count + k)) (length (gzip_compress env (snd (files ! k))) + 1)
     ([dquote] @ encode_text 0 (gzip_compress env (snd (files ! k))) @ [dquote])
   \<in> set (generate_decls env files count)"
  using generate_decls_split[of k files env count] by (simp add: asset_decls_def Let_def)

lemma dict_set_member:
  "pv \<in> set (dict_set k v kvs) \<Longrightarrow> pv = (k, v) \<or> pv \<in> set kvs"
  by (induction kvs) (auto split: if_splits)

lemma generate_index_member:
  "pv \<in> set (generate_index files index count) \<Longrightarrow>
   pv \<in> set index \<or> (\<exists>k<length files. snd pv = variable_name (count + k))"
proof (induction files arbitrary: index count)
  case Nil
  then show ?case by simp
next
  case (Cons entry rest)
  obtain relativePath content where entry: "entry = (relativePath, content)" by (cases entry)
  from Cons.prems have
    "pv \<in> set (generate_index rest (dict_set relativePath (variable_name count) index) (count + 1))"
    by (simp add: entry)
  then consider "pv \<in> set (dict_set relativePath (variable_name count) index)"
    | k where "k < length rest" "snd pv = variable_name (count + 1 + k)"
    using Cons.IH by blast
  then show ?case
  proof cases
    case 1
    then have "pv = (relativePath, variable_name count) \<or> pv \<in> set index"
      by (rule dict_set_member)
    then show ?thesis
    proof
      assume "pv = (relativePath, variable_name count)"
      then have "snd pv = variable_name (count + 0)" by simp
      then show ?thesis by (intro disjI2 exI[of _ 0]) simp
    next
      assume "pv \<in> set index"
      then show ?thesis by simp
    qed
  next
    case 2
    then have "Suc k < length (entry # rest)" "snd pv = variable_name (count + Suc k)" by simp_all
    then show ?thesis by blast
  qed
qed

lemma compile_branches_member:
  "compile_branches objs bs = Some cases \<Longrightarrow> c \<in> set cases \<Longrightarrow>
   \<exists>b\<in>set bs. compile_branch objs b = Some c"
proof (induction bs arbitrary: cases)
  case Nil
  then show ?case by simp
next
  case (Cons b bs)
  from Cons.prems(1) obtain c0 cs where
    c0: "compile_branch objs b = Some c0" and cs: "compile_branches objs bs = Some cs"
    and cases: "cases = c0 # cs"
    by (auto split: option.splits)
  show ?case
  proof (cases "c = c0")
    case True
    then show ?thesis using c0 by simp
  next
    case False
    then have "c \<in> set cs" using Cons.prems(2) cases by simp
    then show ?thesis using Cons.IH[OF cs] by auto
  qed
qed

lemma compile_branch_size:
  "map_of objs (snd pv) = Some (ByteArray (z @ [0])) \<Longrightarrow>
   compile_branch objs (index_branch pv) = Some c \<Longrightarrow>
   case_data c = z @ [0] \<and> case_size c = length z"
  by (auto simp add: compile_branch_def index_branch_def split: option.splits cxx_object.splits)

lemma compiled_case_size:
  assumes "cxx_compile (generate_unit env files) = Some cases" and "c \<in> set cases"
  shows "\<exists>k<length files.
           case_data c = gzip_compress env (snd (files ! k)) @ [0] \<and>
           case_size c = length (gzip_compress env (snd (files ! k)))"
proof -
  from assms(1) obtain objs where
    objs: "cxx_declare (generate_decls env files 0) = Some objs"
    and br: "compile_branches objs (map index_branch (generate_index files [] 0)) = Some cases"
    by (auto simp add: cxx_compile_def generate_unit_def split: option.splits)
  from compile_branches_member[OF br assms(2)] obtain pv where
    pv: "pv \<in> set (generate_index files [] 0)" and c: "compile_branch objs (index_branch pv) = Some c"
    by auto
  from generate_index_member[OF pv] obtain k where
    k: "k < length files" "snd pv = variable_name k" by auto
  let ?z = "gzip_compress env (snd (files ! k))"
  let ?a = "ArrayDecl (variable_name k) (length ?z + 1) ([dquote] @ encode_text 0 ?z @ [dquote])"
  have "?a \<in> set (generate_decls env files 0)"
    using array_decl_generated[OF k(1), of 0 env] by simp
  then obtain ob where ob: "decl_object ?a = Some ob" "map_of objs (decl_name ?a) = Some ob"
    using cxx_declare_lookup[OF objs] by blast
  have "decl_object ?a = Some (ByteArray (?z @ [0]))" by (rule decl_object_array)
  then have "map_of objs (snd pv) = Some (ByteArray (?z @ [0]))"
    using ob k(2) by simp
  then have "case_data c = ?z @ [0] \<and> case_size c = length ?z"
    using c by (rule compile_branch_size)
  then show ?thesis using k(1) by blast
qed

text \<open>
  Claim C5. When the script runs to its end, the target declares the array of the file
  at every position \<open>i\<close> with the size \<open>N + 1\<close>, \<open>N\<close> being the number of compressed
  bytes, and every conditional of \<^verbatim>\<open>ReadStaticAsset\<close> is written with
  \<^verbatim>\<open>sizeof(variable) - 1\<close> as the size. The array holds the \<open>N\<close> bytes and one zero
  byte. In every unit that is well-formed, each conditional passes the array of an asset
  with the number of its compressed bytes; when paths and digests are plain texts, the
  conditional of the path of the file at position \<open>i\<close> passes its array and \<open>N\<close>.
\<close>

theorem declared_size_and_passed_size:
  assumes "length args = 2" and "isdir env (args ! 0)" and "can_open env (args ! 1)"
    and "walk_files env (args ! 0) = all_read files" and "i < length files"
    and "z = gzip_compress env (snd (files ! i))"
  shows "main env prog args d =
     (Inr (), d(args ! 1 \<mapsto> \<lparr>is_open = False, written =
        preamble
        @ concat (map render_decl (generate_decls env (take i files) 0))
        @ (''static const uint8_t '' @ variable_name i @ ''['' @ format_nat 10 0 (length z + 1)
           @ ''] = '' @ [newline] @ ''  '' @ [dquote] @ encode_text 0 z @ [dquote] @ '';''
           @ [newline, newline])
        @ render_decl (StringDecl (variable_name i @ ''_md5'') (md5_hexdigest env (snd (files ! i))))
        @ concat (map render_decl (generate_decls env (drop (Suc i) files) (Suc i)))
        @ dispatch_header
        @ concat (map (\<lambda>pv.
             ''  if (path == '' @ [dquote] @ fst pv @ [dquote] @ '')'' @ [newline]
             @ ''  {'' @ [newline]
             @ ''    Uncompress(target, '' @ snd pv @ '', sizeof('' @ snd pv @ '') - 1, ''
             @ snd pv @ ''_md5);'' @ [newline]
             @ ''    return;'' @ [newline]
             @ ''  }'' @ [newline, newline]) (generate_index files [] 0))
        @ dispatch_footer\<rparr>)) \<and>
     decl_object (ArrayDecl (variable_name i) (length z + 1) ([dquote] @ encode_text 0 z @ [dquote]))
       = Some (ByteArray (z @ [0])) \<and>
     (cxx_compile (generate_unit env files) = Some cases \<and> c \<in> set cases \<longrightarrow>
        (\<exists>k<length files.
           case_data c = gzip_compress env (snd (files ! k)) @ [0] \<and>
           case_size c = length (gzip_compress env (snd (files ! k))))) \<and>
     (plain_files env files \<longrightarrow>
        map_option (\<lambda>cases. (case_path (cases ! i), case_data (cases ! i), case_size (cases ! i)))
          (cxx_compile (generate_unit env files))
        = Some (fst (files ! i), z @ [0], length z))"
proof -
  have t: "concat (map render_decl (asset_decls env i (snd (files ! i)))) =
        (''static const uint8_t '' @ variable_name i @ ''['' @ format_nat 10 0 (length z + 1)
           @ ''] = '' @ [newline] @ ''  '' @ [dquote] @ encode_text 0 z @ [dquote] @ '';''
           @ [newline, newline])
        @ render_decl (StringDecl (variable_name i @ ''_md5'') (md5_hexdigest env (snd (files ! i))))"
    by (simp add: asset_decls_def Let_def assms(6))
  have br: "map render_branch (map index_branch (generate_index files [] 0)) =
        map (\<lambda>pv.
             ''  if (path == '' @ [dquote] @ fst pv @ [dquote] @ '')'' @ [newline]
             @ ''  {'' @ [newline]
             @ ''    Uncompress(target, '' @ snd pv @ '', sizeof('' @ snd pv @ '') - 1, ''
             @ snd pv @ ''_md5);'' @ [newline]
             @ ''    return;'' @ [newline]
             @ ''  }'' @ [newline, newline]) (generate_index files [] 0)"
    by (simp add: render_branch_spelled)
  have a: "main env prog args d =
     (Inr (), d(args ! 1 \<mapsto> \<lparr>is_open = False, written =
        preamble
        @ concat (map render_decl (generate_decls env (take i files) 0))
        @ (''static const uint8_t '' @ variable_name i @ ''['' @ format_nat 10 0 (length z + 1)
           @ ''] = '' @ [newline] @ ''  '' @ [dquote] @ encode_text 0 z @ [dquote] @ '';''
           @ [newline, newline])
        @ render_decl (StringDecl (variable_name i @ ''_md5'') (md5_hexdigest env (snd (files ! i))))
        @ concat (map render_decl (generate_decls env (drop (Suc i) files) (Suc i)))
        @ dispatch_header
        @ concat (map (\<lambda>pv.
             ''  if (path == '' @ [dquote] @ fst pv @ [dquote] @ '')'' @ [newline]
             @ ''  {'' @ [newline]
             @ ''    Uncompress(target, '' @ snd pv @ '', sizeof('' @ snd pv @ '') - 1, ''
             @ snd pv @ ''_md5);'' @ [newline]
             @ ''    return;'' @ [newline]
             @ ''  }'' @ [newline, newline]) (generate_index files [] 0))
        @ dispatch_footer\<rparr>))"
    using main_writes_asset[OF assms(1-5), of prog d] unfolding t br by (simp only: append_assoc)
  have b: "decl_object (ArrayDecl (variable_name i) (length z + 1)
             ([dquote] @ encode_text 0 z @ [dquote])) = Some (ByteArray (z @ [0]))"
    by (rule decl_object_array)
  have c: "\<exists>k<length files.
           case_data c = gzip_compress env (snd (files ! k)) @ [0] \<and>
           case_size c = length (gzip_compress env (snd (files ! k)))"
    if "cxx_compile (generate_unit env files) = Some cases" "c \<in> set cases"
    using that by (rule compiled_case_size)
  have e: "map_option (\<lambda>cases. (case_path (cases ! i), case_data (cases ! i), case_size (cases ! i)))
          (cxx_compile (generate_unit env files))
        = Some (fst (files ! i), z @ [0], length z)"
    if "plain_files env files"
    by (simp add: cxx_compile_generate[OF that] expected_cases_nth[OF assms(5)] assms(6))
  from a b c e show ?thesis by blast
qed

theorem declared_size_and_passed_size_witness:
  "fst (main stub_env ''prog'' [''www'', ''out.cpp''] Map.empty) = Inr () \<and>
   decl_object (ArrayDecl (variable_name 1) (length [31, 139, 0, 63, 34, 92 :: byte] + 1)
      ([dquote] @ encode_text 0 [31, 139, 0, 63, 34, 92] @ [dquote]))
     = Some (ByteArray ([31, 139, 0, 63, 34, 92] @ [0])) \<and>
   (\<exists>k<length stub_tree.
      case_data (expected_cases stub_env stub_tree ! 0)
        = gzip_compress stub_env (snd (stub_tree ! k)) @ [0] \<and>
      case_size (expected_cases stub_env stub_tree ! 0)
        = length (gzip_compress stub_env (snd (stub_tree ! k)))) \<and>
   map_option (\<lambda>cases. (case_path (cases ! 1), case_data (cases ! 1), case_size (cases ! 1)))
     (cxx_compile (generate_unit stub_env stub_tree))
   = Some (fst (stub_tree ! 1), [31, 139, 0, 63, 34, 92] @ [0], length [31, 139, 0, 63, 34, 92 :: byte])"
proof -
  have h: "length [''www'', ''out.cpp''] = 2" "isdir stub_env ([''www'', ''out.cpp''] ! 0)"
    "can_open stub_env ([''www'', ''out.cpp''] ! 1)"
    "walk_files stub_env ([''www'', ''out.cpp''] ! 0) = all_read stub_tree"
    "1 < length stub_tree"
    "[31, 139, 0, 63, 34, 92] = gzip_compress stub_env (snd (stub_tree ! 1))"
    by (simp_all add: stub_env_def stub_tree_def)
  have cc: "cxx_compile (generate_unit stub_env stub_tree) = Some (expected_cases stub_env stub_tree)"
    by (rule cxx_compile_generate[OF stub_tree_plain])
  have mem: "expected_cases stub_env stub_tree ! 0 \<in> set (expected_cases stub_env stub_tree)"
    by (simp add: stub_tree_def)
  note inst = declared_size_and_passed_size [OF h, of "''prog''" Map.empty
      "expected_cases stub_env stub_tree" "expected_cases stub_env stub_tree ! 0"]
  from inst have a: "fst (main stub_env ''prog'' [''www'', ''out.cpp''] Map.empty) = Inr ()"
    by simp
  from inst cc mem stub_tree_plain a show ?thesis by blast
qed

end
